theory Spec2Isabelle
  imports Main "HOL-Library.Word"
begin

section \<open>The query pattern of the fuzzy finder (package fzf, pattern.go)\<close>

text \<open>
  Conventions of the embedding.
  \<^item> A Go \<open>string\<close> is a byte sequence: \<open>string\<close> here, one \<open>char\<close> per byte.
    \<open>len\<close>, the slices \<open>s[i:]\<close>, \<open>s[:j]\<close>, \<open>s[i:j]\<close>, \<open>strings.HasPrefix\<close> and
    \<open>strings.HasSuffix\<close> work on bytes, as in Go.
  \<^item> A \<open>[]rune\<close> is represented by the UTF-8 string that encodes it. Every \<open>[]rune\<close> of
    the file is obtained by \<open>[]rune(s)\<close> from a string that \<open>string(runes)\<close>,
    \<open>strings.ToLower\<close>, the split at ASCII white space or the removal of an ASCII
    byte at either end produced, so the two conversions are inverse to each other on
    the values that occur.
  \<^item> Go's \<open>int\<close> is \<open>int\<close>: the only arithmetic on it adds an index into a text and
    the length of a prefix of the same text, which stays far below \<open>2 ^ 63\<close>. \<open>int32\<close>
    is \<open>32 word\<close> and the conversion \<open>int32(x)\<close> is \<open>word_of_int\<close>, which truncates.
  \<^item> Functions and types of other packages and files (\<open>strings.ToLower\<close>, the
    matchers of package \<open>algo\<close>, \<open>Tokenize\<close>, \<open>Transform\<close>, \<open>util.TrimLen\<close>,
    \<open>sort.Sort(ByOrder(...))\<close>) are parameters, collected in the record \<open>externals\<close>.
\<close>

subsection \<open>Data\<close>

datatype termType = termFuzzy | termExact | termPrefix | termSuffix | termEqual

text \<open>The struct \<open>term\<close>; its name is capitalised here, and the field names \<open>typ\<close> and
  \<open>text\<close> are quoted, because the three words are keywords of the theory language.\<close>

record Term =
  "typ" :: termType
  inv :: bool
  "text" :: string
  caseSensitive :: bool
  origText :: string

type_synonym termSet = "Term list"

text \<open>The three case modes; \<open>Case\<close> is declared in another file of the package.\<close>

datatype Case = CaseSmart | CaseIgnore | CaseRespect

text \<open>A matcher of package \<open>algo\<close>:
  \<open>func(caseSensitive bool, forward bool, text []rune, pattern []rune) (int, int)\<close>.\<close>

type_synonym matcher = "bool \<Rightarrow> bool \<Rightarrow> string \<Rightarrow> string \<Rightarrow> int \<times> int"

record Token =
  "text" :: string
  prefixLength :: int
  trimLength :: int

text \<open>\<open>Offset\<close> is \<open>[3]int32\<close>.\<close>

type_synonym Offset = "32 word \<times> 32 word \<times> 32 word"

text \<open>The fields of \<open>Item\<close> that \<open>dupItem\<close> reads and writes. \<open>transformed\<close> is
  \<open>None\<close> for a nil slice. The types of \<open>origText\<close> and \<open>colors\<close> are not used by
  this file and stay parameters.\<close>

record ('o, 'c) Item =
  "text" :: string
  origText :: 'o
  transformed :: "Token list option"
  index :: nat
  offsets :: "Offset list"
  colors :: 'c
  rank :: "nat \<times> nat \<times> nat"

record ('d, 'r) Pattern =
  fuzzy :: bool
  extended :: bool
  caseSensitive :: bool
  forward :: bool
  "text" :: string
  termSets :: "termSet list"
  cacheable :: bool
  delimiter :: 'd
  nth :: "'r list"
  procFun :: "termType \<Rightarrow> matcher"

record ('d, 'r) externals =
  ToLower :: "string \<Rightarrow> string"
  FuzzyMatch :: matcher
  EqualMatch :: matcher
  ExactMatchNaive :: matcher
  PrefixMatch :: matcher
  SuffixMatch :: matcher
  Tokenize :: "string \<Rightarrow> 'd \<Rightarrow> Token list"
  Transform :: "Token list \<Rightarrow> 'r list \<Rightarrow> Token list option"
  TrimLen :: "string \<Rightarrow> int"
  SortByOrder :: "Offset list \<Rightarrow> Offset list"

subsection \<open>Strings\<close>

definition HasPrefix :: "string \<Rightarrow> string \<Rightarrow> bool" where
  "HasPrefix s p = (length p \<le> length s \<and> take (length p) s = p)"

definition HasSuffix :: "string \<Rightarrow> string \<Rightarrow> bool" where
  "HasSuffix s p = (length p \<le> length s \<and> drop (length s - length p) s = p)"

text \<open>\<open>s[i:j]\<close>. Go panics unless \<open>i \<le> j \<le> len(s)\<close>; every slice expression of the
  file is guarded by a test that gives these bounds.\<close>

definition slice :: "string \<Rightarrow> nat \<Rightarrow> nat \<Rightarrow> string" where
  "slice s i j = take (j - i) (drop i s)"

text \<open>\<open>strings.Trim(s, " ")\<close>: all leading and trailing spaces removed.\<close>

definition Trim :: "string \<Rightarrow> string" where
  "Trim s = rev (dropWhile (\<lambda>c. c = CHR '' '') (rev (dropWhile (\<lambda>c. c = CHR '' '') s)))"

text \<open>The class \<open>\s\<close> of Go's regular expressions: tab, line feed, form feed,
  carriage return and space.\<close>

definition isSpace :: "char \<Rightarrow> bool" where
  "isSpace c = (c = CHR 0x09 \<or> c = CHR 0x0A \<or> c = CHR 0x0C \<or> c = CHR 0x0D \<or> c = CHR '' '')"

text \<open>\<open>_splitRegex.Split(str, -1)\<close> for \<open>\s+\<close>: the pieces between the maximal runs
  of white space, in order; a run at either end leaves an empty piece there, and the
  empty string gives one empty piece. \<open>cur\<close> is the piece being read.\<close>

function splitFrom :: "string \<Rightarrow> string \<Rightarrow> string list" where
  "splitFrom cur [] = [cur]"
| "splitFrom cur (c # cs) =
     (if isSpace c then cur # splitFrom [] (dropWhile isSpace cs)
      else splitFrom (cur @ [c]) cs)"
  by pat_completeness auto
termination
  by (relation "measure (\<lambda>(cur, s). length s)")
     (auto simp: less_Suc_eq_le length_dropWhile_le)

definition Split :: "string \<Rightarrow> string list" where
  "Split str = splitFrom [] str"

subsection \<open>parseTerms\<close>

text \<open>The body of the loop over the tokens, up to the test \<open>len(text) > 0\<close>:
  \<open>Bar\<close> where the loop meets \<open>|\<close> and continues, otherwise the term the loop would
  append, whose text may be empty.\<close>

datatype tokenResult = Bar | Parsed Term

definition parseToken :: "(string \<Rightarrow> string) \<Rightarrow> bool \<Rightarrow> Case \<Rightarrow> string \<Rightarrow> tokenResult" where
  "parseToken lower fuzzy' caseMode token =
     (let lowerText = lower token;
          caseSensitive' = (caseMode = CaseRespect \<or> caseMode = CaseSmart \<and> token \<noteq> lowerText);
          text1 = (if \<not> caseSensitive' then lowerText else token);
          origText' = text1;
          typ1 = (if \<not> fuzzy' then termExact else termFuzzy)
      in if text1 = ''|'' then Bar
         else
           let inv' = HasPrefix text1 ''!'';
               text2 = (if inv' then drop 1 text1 else text1);
               (typ2, text3) =
                 (if HasPrefix text2 [CHR 0x27] then
                    (if fuzzy' then (termExact, drop 1 text2) else (termFuzzy, drop 1 text2))
                  else if HasPrefix text2 ''^'' then
                    (if HasSuffix text2 ''$'' then (termEqual, slice text2 1 (length text2 - 1))
                     else (termPrefix, drop 1 text2))
                  else if HasSuffix text2 ''$'' then (termSuffix, take (length text2 - 1) text2)
                  else (typ1, text2))
           in Parsed \<lparr>typ = typ2, inv = inv', text = text3,
                      caseSensitive = caseSensitive', origText = origText'\<rparr>)"

text \<open>The loop, with its three variables \<open>sets\<close>, \<open>set\<close> (here \<open>cur\<close>) and
  \<open>switchSet\<close>.\<close>

fun parseLoop :: "(string \<Rightarrow> string) \<Rightarrow> bool \<Rightarrow> Case \<Rightarrow> string list \<Rightarrow>
    termSet list \<Rightarrow> termSet \<Rightarrow> bool \<Rightarrow> termSet list \<times> termSet" where
  "parseLoop lower fuzzy' caseMode [] sets cur switchSet = (sets, cur)"
| "parseLoop lower fuzzy' caseMode (token # tokens) sets cur switchSet =
     (case parseToken lower fuzzy' caseMode token of
        Bar \<Rightarrow> parseLoop lower fuzzy' caseMode tokens sets cur False
      | Parsed t \<Rightarrow>
          if length (Term.text t) > 0 then
            (if switchSet then parseLoop lower fuzzy' caseMode tokens (sets @ [cur]) [t] True
             else parseLoop lower fuzzy' caseMode tokens sets (cur @ [t]) True)
          else parseLoop lower fuzzy' caseMode tokens sets cur switchSet)"

definition parseTerms :: "(string \<Rightarrow> string) \<Rightarrow> bool \<Rightarrow> Case \<Rightarrow> string \<Rightarrow> termSet list" where
  "parseTerms lower fuzzy' caseMode str =
     (case parseLoop lower fuzzy' caseMode (Split str) [] [] False of
        (sets, cur) \<Rightarrow> if length cur > 0 then sets @ [cur] else sets)"

subsection \<open>BuildPattern and the pattern memo table\<close>

text \<open>\<open>*Pattern\<close> is an address: the index of the object in the list of the Pattern
  objects allocated so far. \<open>patternCache\<close> is the global \<open>_patternCache\<close>.\<close>

record ('d, 'r) patternStore =
  objects :: "('d, 'r) Pattern list"
  patternCache :: "string \<rightharpoonup> nat"

definition clearPatternCache :: "('d, 'r) patternStore \<Rightarrow> ('d, 'r) patternStore" where
  "clearPatternCache st = st\<lparr>patternCache := Map.empty\<rparr>"

text \<open>The two nested loops that compute \<open>cacheable\<close>. \<open>termSetBreaks idx ts\<close> is the
  inner loop from index \<open>idx\<close> on: true when it reaches \<open>break Loop\<close>.\<close>

fun termSetBreaks :: "nat \<Rightarrow> termSet \<Rightarrow> bool" where
  "termSetBreaks idx [] = False"
| "termSetBreaks idx (t # ts) = (if idx > 0 \<or> inv t then True else termSetBreaks (idx + 1) ts)"

fun cacheableLoop :: "termSet list \<Rightarrow> bool" where
  "cacheableLoop [] = True"
| "cacheableLoop (ts # rest) = (if termSetBreaks 0 ts then False else cacheableLoop rest)"

definition bindProcFun :: "('d, 'r) externals \<Rightarrow> termType \<Rightarrow> matcher" where
  "bindProcFun ext ty =
     (case ty of termFuzzy \<Rightarrow> FuzzyMatch ext | termEqual \<Rightarrow> EqualMatch ext
      | termExact \<Rightarrow> ExactMatchNaive ext | termPrefix \<Rightarrow> PrefixMatch ext
      | termSuffix \<Rightarrow> SuffixMatch ext)"

text \<open>The Pattern object that \<open>BuildPattern\<close> constructs when the memo table has no
  entry, with the string under which it stores the object.\<close>

definition newPattern :: "('d, 'r) externals \<Rightarrow> bool \<Rightarrow> bool \<Rightarrow> Case \<Rightarrow> bool \<Rightarrow> 'r list \<Rightarrow> 'd \<Rightarrow>
    string \<Rightarrow> ('d, 'r) Pattern \<times> string" where
  "newPattern ext fuzzy' extended' caseMode forward' nth' delimiter' asString =
     (let (caseSensitive', cacheable', termSets', asString') =
            (if extended' then
               (let ts = parseTerms (ToLower ext) fuzzy' caseMode asString
                in (True, cacheableLoop ts, ts, asString))
             else
               (let lowerString = ToLower ext asString;
                    cs = (caseMode = CaseRespect \<or> caseMode = CaseSmart \<and> lowerString \<noteq> asString)
                in (cs, True, [], if \<not> cs then lowerString else asString)))
      in (\<lparr>fuzzy = fuzzy', extended = extended', caseSensitive = caseSensitive',
           forward = forward', text = asString', termSets = termSets',
           cacheable = cacheable', delimiter = delimiter', nth = nth',
           procFun = bindProcFun ext\<rparr>, asString'))"

definition BuildPattern :: "('d, 'r) externals \<Rightarrow> bool \<Rightarrow> bool \<Rightarrow> Case \<Rightarrow> bool \<Rightarrow> 'r list \<Rightarrow> 'd \<Rightarrow>
    string \<Rightarrow> ('d, 'r) patternStore \<Rightarrow> nat \<times> ('d, 'r) patternStore" where
  "BuildPattern ext fuzzy' extended' caseMode forward' nth' delimiter' runes st =
     (let asString = (if extended' then Trim runes else runes)
      in case patternCache st asString of
           Some cached \<Rightarrow> (cached, st)
         | None \<Rightarrow>
             (let (p, asString') =
                    newPattern ext fuzzy' extended' caseMode forward' nth' delimiter' asString;
                  ptr = length (objects st)
              in (ptr, st\<lparr>objects := objects st @ [p],
                         patternCache := (patternCache st)(asString' \<mapsto> ptr)\<rparr>)))"

subsection \<open>IsEmpty, AsString, CacheKey\<close>

definition IsEmpty :: "('d, 'r) Pattern \<Rightarrow> bool" where
  "IsEmpty p = (if \<not> extended p then length (Pattern.text p) = 0 else length (termSets p) = 0)"

definition AsString :: "('d, 'r) Pattern \<Rightarrow> string" where
  "AsString p = Pattern.text p"

text \<open>\<open>strings.Join\<close>.\<close>

fun Join :: "string list \<Rightarrow> string \<Rightarrow> string" where
  "Join [] sep = []"
| "Join [x] sep = x"
| "Join (x # y # ys) sep = x @ sep @ Join (y # ys) sep"

fun cacheableTermsLoop :: "termSet list \<Rightarrow> string list \<Rightarrow> string list" where
  "cacheableTermsLoop [] cacheableTerms = cacheableTerms"
| "cacheableTermsLoop (ts # rest) cacheableTerms =
     (if length ts = 1 \<and> \<not> inv (ts ! 0)
      then cacheableTermsLoop rest (cacheableTerms @ [Term.origText (ts ! 0)])
      else cacheableTermsLoop rest cacheableTerms)"

definition CacheKey :: "('d, 'r) Pattern \<Rightarrow> string" where
  "CacheKey p =
     (if \<not> extended p then AsString p
      else Join (cacheableTermsLoop (termSets p) []) '' '')"

subsection \<open>Matching one item\<close>

text \<open>\<open>prepareInput\<close> writes the tokens into the item; the item as it is afterwards
  is returned with them. A nil slice is \<open>None\<close>; ranging over it visits nothing.\<close>

definition prepareInput :: "('d, 'r) externals \<Rightarrow> ('d, 'r) Pattern \<Rightarrow> ('o, 'c) Item \<Rightarrow>
    Token list \<times> ('o, 'c) Item" where
  "prepareInput ext p item =
     (case transformed item of
        Some ts \<Rightarrow> (ts, item)
      | None \<Rightarrow>
          (let ret =
                 (if length (nth p) > 0
                  then Transform ext (Tokenize ext (Item.text item) (delimiter p)) (nth p)
                  else Some [\<lparr>Token.text = Item.text item, prefixLength = 0,
                               trimLength = TrimLen ext (Item.text item)\<rparr>])
           in (case ret of None \<Rightarrow> [] | Some ts \<Rightarrow> ts, item\<lparr>transformed := ret\<rparr>)))"

fun iter :: "matcher \<Rightarrow> Token list \<Rightarrow> bool \<Rightarrow> bool \<Rightarrow> string \<Rightarrow> int \<times> int \<times> int" where
  "iter pfun [] cs fwd pat = (- 1, - 1, - 1)"
| "iter pfun (part # tokens) cs fwd pat =
     (case pfun cs fwd (Token.text part) pat of
        (sidx, eidx) \<Rightarrow>
          if sidx \<ge> 0
          then (sidx + prefixLength part, eidx + prefixLength part, trimLength part)
          else iter pfun tokens cs fwd pat)"

definition basicMatch :: "('d, 'r) externals \<Rightarrow> ('d, 'r) Pattern \<Rightarrow> ('o, 'c) Item \<Rightarrow>
    (int \<times> int \<times> int) \<times> ('o, 'c) Item" where
  "basicMatch ext p item =
     (case prepareInput ext p item of
        (input, item') \<Rightarrow>
          (if fuzzy p
           then iter (FuzzyMatch ext) input (Pattern.caseSensitive p) (forward p) (Pattern.text p)
           else iter (ExactMatchNaive ext) input (Pattern.caseSensitive p) (forward p)
                  (Pattern.text p),
           item'))"

text \<open>The inner loop of \<open>extendedMatch\<close> over the terms of one set ends in one of three
  ways: \<open>break Loop\<close>, an offset appended and \<open>break\<close>, or the end of the set with
  nothing appended.\<close>

datatype setResult = BreakLoop | Appended Offset | Exhausted

fun matchTermSet :: "('d, 'r) Pattern \<Rightarrow> Token list \<Rightarrow> termSet \<Rightarrow> setResult" where
  "matchTermSet p input [] = Exhausted"
| "matchTermSet p input (t # ts) =
     (case iter (procFun p (typ t)) input (Term.caseSensitive t) (forward p) (Term.text t) of
        (sidx, eidx, tlen) \<Rightarrow>
          if sidx \<ge> 0 then
            (if inv t then BreakLoop
             else Appended (word_of_int sidx, word_of_int eidx, word_of_int tlen))
          else if inv t then Appended (0, 0, 0)
          else matchTermSet p input ts)"

fun extendedLoop :: "('d, 'r) Pattern \<Rightarrow> Token list \<Rightarrow> termSet list \<Rightarrow> Offset list \<Rightarrow>
    Offset list" where
  "extendedLoop p input [] offs = offs"
| "extendedLoop p input (ts # rest) offs =
     (case matchTermSet p input ts of
        BreakLoop \<Rightarrow> offs
      | Appended off \<Rightarrow> extendedLoop p input rest (offs @ [off])
      | Exhausted \<Rightarrow> extendedLoop p input rest offs)"

definition extendedMatch :: "('d, 'r) externals \<Rightarrow> ('d, 'r) Pattern \<Rightarrow> ('o, 'c) Item \<Rightarrow>
    Offset list \<times> ('o, 'c) Item" where
  "extendedMatch ext p item =
     (case prepareInput ext p item of
        (input, item') \<Rightarrow> (extendedLoop p input (termSets p) [], item'))"

definition MatchItem :: "('d, 'r) externals \<Rightarrow> ('d, 'r) Pattern \<Rightarrow> ('o, 'c) Item \<Rightarrow>
    bool \<times> ('o, 'c) Item" where
  "MatchItem ext p item =
     (if \<not> extended p then
        (case basicMatch ext p item of ((sidx, eidx, tlen), item') \<Rightarrow> (sidx \<ge> 0, item'))
      else
        (case extendedMatch ext p item of
           (offs, item') \<Rightarrow> (length offs = length (termSets p), item')))"

definition dupItem :: "('d, 'r) externals \<Rightarrow> ('o, 'c) Item \<Rightarrow> Offset list \<Rightarrow> ('o, 'c) Item" where
  "dupItem ext item offs =
     \<lparr>Item.text = Item.text item, origText = Item.origText item,
      transformed = transformed item, index = index item,
      offsets = SortByOrder ext offs, colors = colors item,
      rank = (0, 0, index item)\<rparr>"

subsection \<open>The result cache\<close>

text \<open>A \<open>*Chunk\<close> is an address (a number); \<open>chunks\<close> gives the items of the chunk
  at an address. The items of a chunk and of a cached list are distinct objects
  (\<open>dupItem\<close> allocates every item of a result), so what \<open>prepareInput\<close> writes into
  the items of a list is visible through that list only.\<close>

type_synonym ('o, 'c) ChunkCache = "nat \<times> string \<rightharpoonup> ('o, 'c) Item list"

text \<open>Modelled from the spec: the chunk result store \<open>ChunkCache\<close> with \<open>Find\<close> and
  \<open>Add\<close>, which another file of the package defines. Results stored for a chunk and a
  key are returned unchanged; \<open>Find\<close> reports \<open>found\<close> exactly for what was stored.\<close>

definition Find :: "('o, 'c) ChunkCache \<Rightarrow> nat \<Rightarrow> string \<Rightarrow> ('o, 'c) Item list option" where
  "Find cc chunk key = cc (chunk, key)"

text \<open>Modelled from the spec: see \<open>Find\<close>.\<close>

definition Add :: "('o, 'c) ChunkCache \<Rightarrow> nat \<Rightarrow> string \<Rightarrow> ('o, 'c) Item list \<Rightarrow> ('o, 'c) ChunkCache" where
  "Add cc chunk key list = cc((chunk, key) \<mapsto> list)"

record ('o, 'c) matchStore =
  chunks :: "nat \<Rightarrow> ('o, 'c) Item list"
  cache :: "('o, 'c) ChunkCache"

definition clearChunkCache :: "('o, 'c) matchStore \<Rightarrow> ('o, 'c) matchStore" where
  "clearChunkCache st = st\<lparr>cache := Map.empty\<rparr>"

subsection \<open>matchChunk and Match\<close>

text \<open>The two loops of \<open>matchChunk\<close>. Each returns the matches in the order of the
  items, and the items as \<open>prepareInput\<close> leaves them.\<close>

fun basicChunkLoop :: "('d, 'r) externals \<Rightarrow> ('d, 'r) Pattern \<Rightarrow> ('o, 'c) Item list \<Rightarrow>
    ('o, 'c) Item list \<times> ('o, 'c) Item list" where
  "basicChunkLoop ext p [] = ([], [])"
| "basicChunkLoop ext p (item # rest) =
     (case basicMatch ext p item of
        ((sidx, eidx, tlen), item') \<Rightarrow>
          (case basicChunkLoop ext p rest of
             (matches, rest') \<Rightarrow>
               (if sidx \<ge> 0
                then dupItem ext item' [(word_of_int sidx, word_of_int eidx, word_of_int tlen)]
                       # matches
                else matches,
                item' # rest')))"

fun extendedChunkLoop :: "('d, 'r) externals \<Rightarrow> ('d, 'r) Pattern \<Rightarrow> ('o, 'c) Item list \<Rightarrow>
    ('o, 'c) Item list \<times> ('o, 'c) Item list" where
  "extendedChunkLoop ext p [] = ([], [])"
| "extendedChunkLoop ext p (item # rest) =
     (case extendedMatch ext p item of
        (offs, item') \<Rightarrow>
          (case extendedChunkLoop ext p rest of
             (matches, rest') \<Rightarrow>
               (if length offs = length (termSets p)
                then dupItem ext item' offs # matches
                else matches,
                item' # rest')))"

definition matchChunk :: "('d, 'r) externals \<Rightarrow> ('d, 'r) Pattern \<Rightarrow> ('o, 'c) Item list \<Rightarrow>
    ('o, 'c) Item list \<times> ('o, 'c) Item list" where
  "matchChunk ext p items =
     (if \<not> extended p then basicChunkLoop ext p items else extendedChunkLoop ext p items)"

text \<open>The loop of \<open>Match\<close> over \<open>idx\<close>, from \<open>idx\<close> on: the first key found and its
  entry, or \<open>None\<close> when the loop ends without \<open>break\<close>.\<close>

function ancestorLoop :: "('o, 'c) ChunkCache \<Rightarrow> nat \<Rightarrow> string \<Rightarrow> nat \<Rightarrow>
    (string \<times> ('o, 'c) Item list) option" where
  "ancestorLoop cc chunk cacheKey idx =
     (if idx < length cacheKey then
        (let prefix = take (length cacheKey - idx) cacheKey;
             suffix = drop idx cacheKey
         in case Find cc chunk prefix of
              Some cached \<Rightarrow> Some (prefix, cached)
            | None \<Rightarrow>
                (case Find cc chunk suffix of
                   Some cached \<Rightarrow> Some (suffix, cached)
                 | None \<Rightarrow> ancestorLoop cc chunk cacheKey (idx + 1)))
      else None)"
  by pat_completeness auto
termination
  by (relation "measure (\<lambda>(cc, chunk, cacheKey, idx). length cacheKey - idx)") auto

declare ancestorLoop.simps [simp del]

text \<open>\<open>Match\<close>. \<open>space\<close> is the chunk itself or the list of a cache entry; the items
  that \<open>matchChunk\<close> visits belong to the one or the other, and are written back
  there.\<close>

definition Match :: "('d, 'r) externals \<Rightarrow> ('d, 'r) Pattern \<Rightarrow> nat \<Rightarrow> ('o, 'c) matchStore \<Rightarrow>
    ('o, 'c) Item list \<times> ('o, 'c) matchStore" where
  "Match ext p chunk st =
     (let cacheKey = CacheKey p
      in case (if cacheable p then Find (cache st) chunk cacheKey else None) of
           Some cached \<Rightarrow> (cached, st)
         | None \<Rightarrow>
             (let (matches, st1) =
                    (case ancestorLoop (cache st) chunk cacheKey 1 of
                       None \<Rightarrow>
                         (case matchChunk ext p (chunks st chunk) of
                            (matches, items') \<Rightarrow>
                              (matches, st\<lparr>chunks := (chunks st)(chunk := items')\<rparr>))
                     | Some (substr, cached) \<Rightarrow>
                         (case matchChunk ext p cached of
                            (matches, items') \<Rightarrow>
                              (matches, st\<lparr>cache := (cache st)((chunk, substr) \<mapsto> items')\<rparr>)))
              in if cacheable p
                 then (matches, st1\<lparr>cache := Add (cache st1) chunk cacheKey matches\<rparr>)
                 else (matches, st1)))"

subsection \<open>The collaborators, for running the code on examples\<close>

text \<open>\<open>strings.ToLower\<close> as it works on ASCII text (the examples below are ASCII): the
  letters \<open>A\<close> to \<open>Z\<close> become \<open>a\<close> to \<open>z\<close>.\<close>

definition lowerChar :: "char \<Rightarrow> char" where
  "lowerChar c =
     (let n = (of_char c :: nat) in if 65 \<le> n \<and> n \<le> 90 then char_of (n + 32) else c)"

definition asciiLower :: "string \<Rightarrow> string" where
  "asciiLower s = map lowerChar s"

text \<open>Modelled from the spec: the five matchers of package \<open>algo\<close>, which the spec
  describes as fuzzy subsequence match, literal exact match, prefix match, suffix match
  and exact-equality match, each returning the span of the match in the text or
  \<open>(-1, -1)\<close>. When \<open>caseSensitive\<close> is false the text is folded before it is compared
  with the pattern, which the caller has folded. The direction is a hint between
  several possible spans and is not used: the leftmost span is returned.\<close>

fun subseqEnd :: "string \<Rightarrow> string \<Rightarrow> nat \<Rightarrow> nat option" where
  "subseqEnd [] cs i = Some i"
| "subseqEnd (q # qs) [] i = None"
| "subseqEnd (q # qs) (c # cs) i =
     (if q = c then subseqEnd qs cs (i + 1) else subseqEnd (q # qs) cs (i + 1))"

fun subseqSpan :: "string \<Rightarrow> string \<Rightarrow> nat \<Rightarrow> (nat \<times> nat) option" where
  "subseqSpan [] cs i = Some (i, i)"
| "subseqSpan (q # qs) [] i = None"
| "subseqSpan (q # qs) (c # cs) i =
     (if q = c then map_option (\<lambda>e. (i, e)) (subseqEnd qs cs (i + 1))
      else subseqSpan (q # qs) cs (i + 1))"

fun substrAt :: "string \<Rightarrow> string \<Rightarrow> nat \<Rightarrow> (nat \<times> nat) option" where
  "substrAt pat [] i = (if pat = [] then Some (i, i) else None)"
| "substrAt pat (c # cs) i =
     (if HasPrefix (c # cs) pat then Some (i, i + length pat) else substrAt pat cs (i + 1))"

definition spanResult :: "(nat \<times> nat) option \<Rightarrow> int \<times> int" where
  "spanResult r = (case r of None \<Rightarrow> (- 1, - 1) | Some (s, e) \<Rightarrow> (int s, int e))"

definition foldText :: "bool \<Rightarrow> string \<Rightarrow> string" where
  "foldText cs txt = (if cs then txt else asciiLower txt)"

definition specFuzzyMatch :: matcher where
  "specFuzzyMatch cs fwd txt pat = spanResult (subseqSpan pat (foldText cs txt) 0)"

definition specExactMatch :: matcher where
  "specExactMatch cs fwd txt pat = spanResult (substrAt pat (foldText cs txt) 0)"

definition specPrefixMatch :: matcher where
  "specPrefixMatch cs fwd txt pat =
     spanResult (if HasPrefix (foldText cs txt) pat then Some (0, length pat) else None)"

definition specSuffixMatch :: matcher where
  "specSuffixMatch cs fwd txt pat =
     spanResult (if HasSuffix (foldText cs txt) pat
                 then Some (length txt - length pat, length txt) else None)"

definition specEqualMatch :: matcher where
  "specEqualMatch cs fwd txt pat =
     spanResult (if foldText cs txt = pat then Some (0, length pat) else None)"

text \<open>Modelled from the spec: the collaborators together. The examples select no
  fields (\<open>nth\<close> is empty), so \<open>Tokenize\<close> and \<open>Transform\<close> are not called; the
  trimmed length, which the spec says is only threaded through, is the length of the
  text; \<open>ByOrder\<close> sorts the offsets by start position.\<close>

definition specExt :: "(unit, unit) externals" where
  "specExt =
     \<lparr>ToLower = asciiLower, FuzzyMatch = specFuzzyMatch, EqualMatch = specEqualMatch,
      ExactMatchNaive = specExactMatch, PrefixMatch = specPrefixMatch,
      SuffixMatch = specSuffixMatch, Tokenize = (\<lambda>s d. []), Transform = (\<lambda>ts r. Some ts),
      TrimLen = (\<lambda>s. int (length s)),
      SortByOrder = sort_key (\<lambda>(s, e, t). sint s)\<rparr>"

text \<open>An item as the reader hands it over: the text, nothing computed yet.\<close>

definition mkItem :: "string \<Rightarrow> nat \<Rightarrow> (unit, unit) Item" where
  "mkItem s i =
     \<lparr>Item.text = s, origText = (), transformed = None, index = i, offsets = [],
      colors = (), rank = (0, 0, i)\<rparr>"

definition emptyPatterns :: "(unit, unit) patternStore" where
  "emptyPatterns = \<lparr>objects = [], patternCache = Map.empty\<rparr>"

definition freshStore :: "(unit, unit) Item list \<Rightarrow> (unit, unit) matchStore" where
  "freshStore items = \<lparr>chunks = (\<lambda>c. items), cache = Map.empty\<rparr>"

text \<open>The pattern of a query in extended or basic mode, fuzzy by default, built with an
  empty memo table.\<close>

definition patternOf :: "bool \<Rightarrow> Case \<Rightarrow> string \<Rightarrow> (unit, unit) Pattern" where
  "patternOf extended' caseMode q =
     (case BuildPattern specExt True extended' caseMode True [] () q emptyPatterns of
        (ptr, st) \<Rightarrow> objects st ! ptr)"

subsection \<open>Notions used to state the properties of the parser\<close>

text \<open>The case sensitivity that the loop of \<open>parseTerms\<close> resolves for a token, and
  the token as the loop reads it from then on: folded unless case-sensitive.\<close>

definition tokenCaseSensitive :: "(string \<Rightarrow> string) \<Rightarrow> Case \<Rightarrow> string \<Rightarrow> bool" where
  "tokenCaseSensitive lower caseMode token =
     (caseMode = CaseRespect \<or> caseMode = CaseSmart \<and> token \<noteq> lower token)"

definition foldedToken :: "(string \<Rightarrow> string) \<Rightarrow> Case \<Rightarrow> string \<Rightarrow> string" where
  "foldedToken lower caseMode token =
     (if tokenCaseSensitive lower caseMode token then token else lower token)"

text \<open>The \<open>if\<close> chain of the loop body that reads the modifiers, on the text left
  after a leading \<open>!\<close> is removed.\<close>

definition modifiers :: "bool \<Rightarrow> string \<Rightarrow> termType \<times> string" where
  "modifiers fuzzy' text2 =
     (if HasPrefix text2 [CHR 0x27] then
        (if fuzzy' then (termExact, drop 1 text2) else (termFuzzy, drop 1 text2))
      else if HasPrefix text2 ''^'' then
        (if HasSuffix text2 ''$'' then (termEqual, slice text2 1 (length text2 - 1))
         else (termPrefix, drop 1 text2))
      else if HasSuffix text2 ''$'' then (termSuffix, take (length text2 - 1) text2)
      else (if \<not> fuzzy' then termExact else termFuzzy, text2))"

text \<open>The term of a token without modifiers that folding leaves as it is.\<close>

definition plainTerm :: "bool \<Rightarrow> Case \<Rightarrow> string \<Rightarrow> Term" where
  "plainTerm fuzzy' caseMode s =
     \<lparr>typ = (if fuzzy' then termFuzzy else termExact), inv = False, text = s,
      caseSensitive = (caseMode = CaseRespect), origText = s\<rparr>"

text \<open>The terms that the loop of \<open>parseTerms\<close> appends for a list of tokens, in
  order, and the test whether a token gives a term at all (it is not \<open>|\<close> and text is
  left once the modifiers are removed).\<close>

fun tokenTerms :: "(string \<Rightarrow> string) \<Rightarrow> bool \<Rightarrow> Case \<Rightarrow> string list \<Rightarrow> Term list" where
  "tokenTerms lower fuzzy' caseMode [] = []"
| "tokenTerms lower fuzzy' caseMode (token # tokens) =
     (case parseToken lower fuzzy' caseMode token of
        Bar \<Rightarrow> tokenTerms lower fuzzy' caseMode tokens
      | Parsed t \<Rightarrow>
          if length (Term.text t) > 0 then t # tokenTerms lower fuzzy' caseMode tokens
          else tokenTerms lower fuzzy' caseMode tokens)"

definition producesTerm :: "(string \<Rightarrow> string) \<Rightarrow> bool \<Rightarrow> Case \<Rightarrow> string \<Rightarrow> bool" where
  "producesTerm lower fuzzy' caseMode token =
     (case parseToken lower fuzzy' caseMode token of
        Bar \<Rightarrow> False | Parsed t \<Rightarrow> length (Term.text t) > 0)"

text \<open>The loop of \<open>parseTerms\<close> once more, returning \<open>switchSet\<close> as well: the state
  of the loop after the tokens. \<open>groupsOfTokens\<close> is what \<open>parseTerms\<close> makes of a
  list of tokens. A token is a bar when the loop meets \<open>|\<close> in it. \<open>afterTerm\<close> holds
  of a list of tokens when the last of them that is a bar or gives a term gives a
  term.\<close>

fun parseRun :: "(string \<Rightarrow> string) \<Rightarrow> bool \<Rightarrow> Case \<Rightarrow> string list \<Rightarrow>
    termSet list \<Rightarrow> termSet \<Rightarrow> bool \<Rightarrow> termSet list \<times> termSet \<times> bool" where
  "parseRun lower fuzzy' caseMode [] sets cur switchSet = (sets, cur, switchSet)"
| "parseRun lower fuzzy' caseMode (token # tokens) sets cur switchSet =
     (case parseToken lower fuzzy' caseMode token of
        Bar \<Rightarrow> parseRun lower fuzzy' caseMode tokens sets cur False
      | Parsed t \<Rightarrow>
          if length (Term.text t) > 0 then
            (if switchSet then parseRun lower fuzzy' caseMode tokens (sets @ [cur]) [t] True
             else parseRun lower fuzzy' caseMode tokens sets (cur @ [t]) True)
          else parseRun lower fuzzy' caseMode tokens sets cur switchSet)"

definition groupsOfTokens :: "(string \<Rightarrow> string) \<Rightarrow> bool \<Rightarrow> Case \<Rightarrow> string list \<Rightarrow> termSet list" where
  "groupsOfTokens lower fuzzy' caseMode tokens =
     (case parseLoop lower fuzzy' caseMode tokens [] [] False of
        (sets, cur) \<Rightarrow> if length cur > 0 then sets @ [cur] else sets)"

definition isBar :: "(string \<Rightarrow> string) \<Rightarrow> bool \<Rightarrow> Case \<Rightarrow> string \<Rightarrow> bool" where
  "isBar lower fuzzy' caseMode token = (parseToken lower fuzzy' caseMode token = Bar)"

definition afterTerm :: "(string \<Rightarrow> string) \<Rightarrow> bool \<Rightarrow> Case \<Rightarrow> string list \<Rightarrow> bool" where
  "afterTerm lower fuzzy' caseMode tokens =
     (let es = filter (\<lambda>tk. isBar lower fuzzy' caseMode tk \<or> producesTerm lower fuzzy' caseMode tk)
                 tokens
      in es \<noteq> [] \<and> producesTerm lower fuzzy' caseMode (last es))"

subsection \<open>Notions used to state the properties of patterns and of the cache\<close>

text \<open>The Pattern object behind the pointer that \<open>BuildPattern\<close> returns.\<close>

definition builtPattern :: "('d, 'r) externals \<Rightarrow> bool \<Rightarrow> bool \<Rightarrow> Case \<Rightarrow> bool \<Rightarrow> 'r list \<Rightarrow> 'd \<Rightarrow>
    string \<Rightarrow> ('d, 'r) patternStore \<Rightarrow> ('d, 'r) Pattern" where
  "builtPattern ext fuzzy' extended' caseMode forward' nth' delimiter' runes st =
     (case BuildPattern ext fuzzy' extended' caseMode forward' nth' delimiter' runes st of
        (ptr, st') \<Rightarrow> objects st' ! ptr)"

text \<open>The stores that calls of \<open>BuildPattern\<close> and \<open>clearPatternCache\<close> produce from
  the store of \<open>init\<close>, which has no objects and an empty table. \<open>wellBuilt\<close> is what
  the construction gives every object, and \<open>storeInv\<close> what it keeps true of the
  store: the table points to objects of the store, and every object is well built.\<close>

inductive builtStore :: "('d, 'r) patternStore \<Rightarrow> bool" where
  init: "builtStore \<lparr>objects = [], patternCache = Map.empty\<rparr>"
| build: "builtStore st \<Longrightarrow>
          builtStore (snd (BuildPattern ext fuzzy' extended' caseMode forward' nth' delimiter'
                             runes st))"
| clear: "builtStore st \<Longrightarrow> builtStore (clearPatternCache st)"

definition wellBuilt :: "('d, 'r) Pattern \<Rightarrow> bool" where
  "wellBuilt p =
     (if extended p then [] \<notin> set (termSets p) \<and> cacheable p = cacheableLoop (termSets p)
      else termSets p = [] \<and> cacheable p)"

definition storeInv :: "('d, 'r) patternStore \<Rightarrow> bool" where
  "storeInv st =
     ((\<forall>k ptr. patternCache st k = Some ptr \<longrightarrow> ptr < length (objects st))
      \<and> (\<forall>p \<in> set (objects st). wellBuilt p))"

text \<open>Two candidate cache keys of a query whose groups are single terms: the tokens
  that give a term, joined by spaces, as they are typed (\<open>unfoldedKey\<close>) and as the
  loop reads them after the case fold (\<open>foldedKey\<close>).\<close>

definition unfoldedKey :: "(string \<Rightarrow> string) \<Rightarrow> bool \<Rightarrow> Case \<Rightarrow> string \<Rightarrow> string" where
  "unfoldedKey lower fuzzy' caseMode str =
     Join (filter (producesTerm lower fuzzy' caseMode) (Split str)) '' ''"

definition foldedKey :: "(string \<Rightarrow> string) \<Rightarrow> bool \<Rightarrow> Case \<Rightarrow> string \<Rightarrow> string" where
  "foldedKey lower fuzzy' caseMode str =
     Join (map (foldedToken lower caseMode)
             (filter (producesTerm lower fuzzy' caseMode) (Split str))) '' ''"

text \<open>The keys of the ancestors of a key, in the order of the search: for each drop
  length \<open>d\<close> from 1 up to the length of the key less one, the key without its last
  \<open>d\<close> bytes, then the key without its first \<open>d\<close> bytes. \<open>firstCached\<close> is the first
  of a list of keys that has an entry, with the entry; \<open>scanSpace\<close> is that entry for
  the ancestors of a key, or the chunk itself when none has an entry.\<close>

definition ancestorKeys :: "string \<Rightarrow> string list" where
  "ancestorKeys key =
     concat (map (\<lambda>d. [take (length key - d) key, drop d key]) [1 ..< length key])"

fun firstCached :: "('o, 'c) ChunkCache \<Rightarrow> nat \<Rightarrow> string list \<Rightarrow>
    (string \<times> ('o, 'c) Item list) option" where
  "firstCached cc chunk [] = None"
| "firstCached cc chunk (k # ks) =
     (case Find cc chunk k of Some cached \<Rightarrow> Some (k, cached) | None \<Rightarrow> firstCached cc chunk ks)"

definition scanSpace :: "('o, 'c) matchStore \<Rightarrow> nat \<Rightarrow> string \<Rightarrow> ('o, 'c) Item list" where
  "scanSpace st chunk key =
     (case firstCached (cache st) chunk (ancestorKeys key) of
        None \<Rightarrow> chunks st chunk
      | Some (k, cached) \<Rightarrow> cached)"

text \<open>The characters of a key, for the wording that counts the drop length in
  characters: a Go string holds the UTF-8 encoding of its characters, one to four bytes
  each, a lead byte followed by continuation bytes (\<open>0x80\<close> to \<open>0xBF\<close>).
  \<open>runesOf\<close> cuts a well-formed string into the byte sequences of its characters, and
  \<open>charAncestorKeys\<close> lists the ancestors of a key in the order of \<open>ancestorKeys\<close>
  with \<open>d\<close> characters dropped instead of \<open>d\<close> bytes.\<close>

definition isCont :: "char \<Rightarrow> bool" where
  "isCont c = (128 \<le> (of_char c :: nat) \<and> (of_char c :: nat) < 192)"

function runesOf :: "string \<Rightarrow> string list" where
  "runesOf [] = []"
| "runesOf (c # cs) = (c # takeWhile isCont cs) # runesOf (dropWhile isCont cs)"
  by pat_completeness auto
termination
  by (relation "measure length") (auto simp: less_Suc_eq_le length_dropWhile_le)

definition charAncestorKeys :: "string \<Rightarrow> string list" where
  "charAncestorKeys key =
     (let rs = runesOf key
      in concat (map (\<lambda>d. [concat (take (length rs - d) rs), concat (drop d rs)])
                   [1 ..< length rs]))"


subsection \<open>Notions used to state the properties of extended evaluation\<close>

text \<open>What \<open>iter\<close> returns for a term on the tokens of an item; the term hits when the
  start index is not negative, as \<open>extendedMatch\<close> tests it; the offset appended for a
  hit. A term is passed over when it is not inverted and misses: the inner loop goes on
  to the next term. A set is satisfied when the first of its terms that is not passed
  over is a term that hits and is not inverted, or an inverted term that misses.\<close>

definition termResult :: "('d, 'r) Pattern \<Rightarrow> Token list \<Rightarrow> Term \<Rightarrow> int \<times> int \<times> int" where
  "termResult p input t =
     iter (procFun p (typ t)) input (Term.caseSensitive t) (forward p) (Term.text t)"

definition termHits :: "('d, 'r) Pattern \<Rightarrow> Token list \<Rightarrow> Term \<Rightarrow> bool" where
  "termHits p input t = (fst (termResult p input t) \<ge> 0)"

definition termOffset :: "('d, 'r) Pattern \<Rightarrow> Token list \<Rightarrow> Term \<Rightarrow> Offset" where
  "termOffset p input t =
     (case termResult p input t of
        (sidx, eidx, tlen) \<Rightarrow> (word_of_int sidx, word_of_int eidx, word_of_int tlen))"

definition passedOver :: "('d, 'r) Pattern \<Rightarrow> Token list \<Rightarrow> Term list \<Rightarrow> bool" where
  "passedOver p input ts = list_all (\<lambda>t. \<not> inv t \<and> \<not> termHits p input t) ts"

fun setSatisfied :: "('d, 'r) Pattern \<Rightarrow> Token list \<Rightarrow> termSet \<Rightarrow> bool" where
  "setSatisfied p input [] = False"
| "setSatisfied p input (t # ts) =
     (if inv t then \<not> termHits p input t
      else termHits p input t \<or> setSatisfied p input ts)"

subsection \<open>Stores for the examples\<close>

text \<open>A store whose every chunk holds the given items and whose cache holds one entry,
  for chunk 0; and a store with two entries, which are not what a scan of the chunk
  would find, so that a scan of an entry and a scan of the chunk can be told apart.\<close>

definition storeWithEntry :: "(unit, unit) Item list \<Rightarrow> string \<Rightarrow> (unit, unit) Item list \<Rightarrow>
    (unit, unit) matchStore" where
  "storeWithEntry items key entry = \<lparr>chunks = (\<lambda>c. items), cache = [(0, key) \<mapsto> entry]\<rparr>"

definition twoEntries :: "(unit, unit) matchStore" where
  "twoEntries =
     \<lparr>chunks = (\<lambda>c. [mkItem ''abc'' 0, mkItem ''xbc'' 1, mkItem ''xyz'' 2]),
      cache = [(0, ''bc'') \<mapsto> [mkItem ''xbc'' 1], (0, ''a'') \<mapsto> [mkItem ''abc'' 0]]\<rparr>"

text \<open>A key with a character of two bytes: \<open>e\<close> with an acute accent (U+00E9, the
  bytes \<open>0xC3 0xA9\<close>), then \<open>ab\<close>. The store \<open>accentStore\<close> is what two calls of
  \<open>Match\<close> leave, in basic mode with the case respected, on a chunk of three items:
  one for the accented letter alone, one for \<open>ab\<close>.\<close>

definition eAcute :: string where
  "eAcute = [CHR 0xC3, CHR 0xA9]"

definition accentKey :: string where
  "accentKey = eAcute @ ''ab''"

definition accentStore :: "(unit, unit) matchStore" where
  "accentStore =
     snd (Match specExt (patternOf False CaseRespect ''ab'') 0
       (snd (Match specExt (patternOf False CaseRespect eAcute) 0
          (freshStore [mkItem accentKey 0, mkItem eAcute 1, mkItem ''ab'' 2]))))"


text \<open>An item whose fields are already computed: the text \<open>bar foo\<close> with the two
  fields \<open>bar\<close> (with the delimiter) and \<open>foo\<close>, the second at prefix length 4.\<close>

definition twoFields :: "(unit, unit) Item" where
  "twoFields =
     \<lparr>Item.text = ''bar foo'', origText = (),
      transformed = Some [\<lparr>Token.text = ''bar '', prefixLength = 0, trimLength = 3\<rparr>,
                          \<lparr>Token.text = ''foo'', prefixLength = 4, trimLength = 3\<rparr>],
      index = 0, offsets = [], colors = (), rank = (0, 0, 0)\<rparr>"

section \<open>Properties\<close>

subsection \<open>The parser\<close>

lemma Split_examples:
  "Split ''a | b c'' = [''a'', ''|'', ''b'', ''c'']"
  "Split ''a b'' = [''a'', ''b'']"
  "Split ''a | b | c'' = [''a'', ''|'', ''b'', ''|'', ''c'']"
  "Split (''a   |  b'' @ [CHR 0x09, CHR 0x0A] @ ''c'') = [''a'', ''|'', ''b'', ''c'']"
  by code_simp+

lemma parseToken_unfold:
  "parseToken lower fz cm token =
     (if foldedToken lower cm token = ''|'' then Bar
      else Parsed
        \<lparr>typ = fst (modifiers fz (if HasPrefix (foldedToken lower cm token) ''!''
                                  then drop 1 (foldedToken lower cm token)
                                  else foldedToken lower cm token)),
         inv = HasPrefix (foldedToken lower cm token) ''!'',
         text = snd (modifiers fz (if HasPrefix (foldedToken lower cm token) ''!''
                                   then drop 1 (foldedToken lower cm token)
                                   else foldedToken lower cm token)),
         caseSensitive = tokenCaseSensitive lower cm token,
         origText = foldedToken lower cm token\<rparr>)"
  unfolding parseToken_def foldedToken_def tokenCaseSensitive_def modifiers_def Let_def
  by (simp add: case_prod_beta)

lemma parseToken_bar: "lower ''|'' = ''|'' \<Longrightarrow> parseToken lower fz cm ''|'' = Bar"
  by (simp add: parseToken_def Let_def)

lemma parseToken_letter:
  assumes "lower [c] = [c]" and "c \<notin> set ''|!^$''" and "c \<noteq> CHR 0x27"
  shows "parseToken lower fz cm [c] = Parsed (plainTerm fz cm [c])"
  using assms
  by (auto simp add: parseToken_def Let_def HasPrefix_def HasSuffix_def plainTerm_def)

lemma modifiers_quote: "modifiers fz (CHR 0x27 # s) = (if fz then termExact else termFuzzy, s)"
  by (simp add: modifiers_def HasPrefix_def)

lemma modifiers_equal: "modifiers fz (CHR ''^'' # s @ ''$'') = (termEqual, s)"
  by (simp add: modifiers_def HasPrefix_def HasSuffix_def slice_def)

lemma modifiers_prefix:
  "\<not> HasSuffix s ''$'' \<Longrightarrow> modifiers fz (CHR ''^'' # s) = (termPrefix, s)"
  by (cases s rule: rev_cases) (auto simp add: modifiers_def HasPrefix_def HasSuffix_def)

lemma modifiers_suffix:
  "\<not> HasPrefix s [CHR 0x27] \<Longrightarrow> \<not> HasPrefix s ''^'' \<Longrightarrow>
   modifiers fz (s @ ''$'') = (termSuffix, s)"
  by (cases s) (auto simp add: modifiers_def HasPrefix_def HasSuffix_def)

lemma modifiers_default:
  "\<not> HasPrefix s [CHR 0x27] \<Longrightarrow> \<not> HasPrefix s ''^'' \<Longrightarrow> \<not> HasSuffix s ''$'' \<Longrightarrow>
   modifiers fz s = (if fz then termFuzzy else termExact, s)"
  by (simp add: modifiers_def)

lemma parseTerms_example_queries:
  assumes "lower ''a'' = ''a''" and "lower ''b'' = ''b''" and "lower ''c'' = ''c''"
    and "lower ''|'' = ''|''"
  shows "parseTerms lower fz cm ''a | b c''
           = [[plainTerm fz cm ''a'', plainTerm fz cm ''b''], [plainTerm fz cm ''c'']]
       \<and> parseTerms lower fz cm ''a b'' = [[plainTerm fz cm ''a''], [plainTerm fz cm ''b'']]
       \<and> parseTerms lower fz cm ''a | b | c''
           = [[plainTerm fz cm ''a'', plainTerm fz cm ''b'', plainTerm fz cm ''c'']]
       \<and> parseTerms lower fz cm (''a   |  b'' @ [CHR 0x09, CHR 0x0A] @ ''c'')
           = parseTerms lower fz cm ''a | b c''"
proof -
  have bar: "parseToken lower fz cm ''|'' = Bar"
    using assms by (simp add: parseToken_bar)
  have a: "parseToken lower fz cm ''a'' = Parsed (plainTerm fz cm ''a'')"
    using assms by (simp add: parseToken_letter)
  have b: "parseToken lower fz cm ''b'' = Parsed (plainTerm fz cm ''b'')"
    using assms by (simp add: parseToken_letter)
  have c: "parseToken lower fz cm ''c'' = Parsed (plainTerm fz cm ''c'')"
    using assms by (simp add: parseToken_letter)
  have len: "\<And>s. Term.text (plainTerm fz cm s) = s"
    by (simp add: plainTerm_def)
  have t1: "parseTerms lower fz cm ''a | b c''
      = [[plainTerm fz cm ''a'', plainTerm fz cm ''b''], [plainTerm fz cm ''c'']]"
    by (simp add: parseTerms_def Split_examples(1) bar a b c len)
  have t2: "parseTerms lower fz cm ''a b'' = [[plainTerm fz cm ''a''], [plainTerm fz cm ''b'']]"
    by (simp add: parseTerms_def Split_examples(2) a b len)
  have t3: "parseTerms lower fz cm ''a | b | c''
      = [[plainTerm fz cm ''a'', plainTerm fz cm ''b'', plainTerm fz cm ''c'']]"
    by (simp add: parseTerms_def Split_examples(3) bar a b c len)
  have t4: "parseTerms lower fz cm (''a   |  b'' @ [CHR 0x09, CHR 0x0A] @ ''c'')
      = parseTerms lower fz cm ''a | b c''"
    by (simp only: parseTerms_def Split_examples(1,4))
  from t1 t2 t3 t4 show ?thesis
    by (intro conjI)
qed

text \<open>
  Claim C7. Take a token as the loop reads it after the case fold, other than \<open>|\<close>,
  and write it as an optional leading \<open>!\<close> followed by a body. The loop builds a term
  that is inverted exactly when the \<open>!\<close> is there, and exactly one of five rules gives
  its kind and text: a body \<open>'s\<close> gives the flipped default kind and text \<open>s\<close>; a body
  \<open>^s$\<close> gives Equal and \<open>s\<close>; a body \<open>^s\<close> where \<open>s\<close> does not end in \<open>$\<close> gives
  Prefix and \<open>s\<close>; a body \<open>s$\<close> that starts with neither \<open>'\<close> nor \<open>^\<close> gives Suffix
  and \<open>s\<close>; any other body gives the default kind and the body itself.
\<close>

theorem parseToken_modifiers:
  assumes "foldedToken lower cm token \<noteq> ''|''" and "foldedToken lower cm token = bang @ body"
    and "bang = ''!'' \<or> (bang = [] \<and> \<not> HasPrefix body ''!'')"
  shows "\<exists>t. parseToken lower fz cm token = Parsed t
           \<and> inv t = (bang = ''!'') \<and> Term.origText t = foldedToken lower cm token
           \<and> Term.caseSensitive t = tokenCaseSensitive lower cm token
           \<and> (\<forall>s. body = [CHR 0x27] @ s \<longrightarrow>
                 typ t = (if fz then termExact else termFuzzy) \<and> Term.text t = s)
           \<and> (\<forall>s. body = ''^'' @ s @ ''$'' \<longrightarrow> typ t = termEqual \<and> Term.text t = s)
           \<and> (\<forall>s. body = ''^'' @ s \<and> \<not> HasSuffix s ''$'' \<longrightarrow>
                 typ t = termPrefix \<and> Term.text t = s)
           \<and> (\<forall>s. body = s @ ''$'' \<and> \<not> HasPrefix s [CHR 0x27] \<and> \<not> HasPrefix s ''^'' \<longrightarrow>
                 typ t = termSuffix \<and> Term.text t = s)
           \<and> (\<not> HasPrefix body [CHR 0x27] \<and> \<not> HasPrefix body ''^'' \<and> \<not> HasSuffix body ''$'' \<longrightarrow>
                 typ t = (if fz then termFuzzy else termExact) \<and> Term.text t = body)"
proof -
  let ?x = "foldedToken lower cm token"
  have inv_eq: "HasPrefix ?x ''!'' = (bang = ''!'')"
    using assms(2,3) by (auto simp: HasPrefix_def)
  have body_eq: "(if bang = ''!'' then drop 1 ?x else ?x) = body"
    using assms(2,3) by (auto simp: HasPrefix_def)
  have p: "parseToken lower fz cm token =
      Parsed \<lparr>typ = fst (modifiers fz body), inv = (bang = ''!''), text = snd (modifiers fz body),
              caseSensitive = tokenCaseSensitive lower cm token, origText = ?x\<rparr>"
    using assms(1) by (simp only: parseToken_unfold inv_eq body_eq if_False)
  show ?thesis
    unfolding p
    by (simp add: modifiers_quote modifiers_equal modifiers_prefix modifiers_suffix
        modifiers_default)
qed

theorem parseToken_modifiers_witness:
  "foldedToken asciiLower CaseSmart ''!^Foo$'' \<noteq> ''|''
   \<and> foldedToken asciiLower CaseSmart ''!^Foo$'' = ''!'' @ ''^Foo$''
   \<and> (\<exists>t. parseToken asciiLower True CaseSmart ''!^Foo$'' = Parsed t \<and> inv t
          \<and> typ t = termEqual \<and> Term.text t = ''Foo'' \<and> Term.caseSensitive t)"
proof -
  have h1: "foldedToken asciiLower CaseSmart ''!^Foo$'' \<noteq> ''|''"
    by code_simp
  have h2: "foldedToken asciiLower CaseSmart ''!^Foo$'' = ''!'' @ ''^Foo$''"
    by code_simp
  have h3: "tokenCaseSensitive asciiLower CaseSmart ''!^Foo$''"
    by code_simp
  from parseToken_modifiers [OF h1 h2, of True] h3
  obtain t where "parseToken asciiLower True CaseSmart ''!^Foo$'' = Parsed t" "inv t"
    "Term.caseSensitive t"
    "\<forall>s. ''^Foo$'' = ''^'' @ s @ ''$'' \<longrightarrow> typ t = termEqual \<and> Term.text t = s"
    by auto
  moreover from this(4) have "typ t = termEqual \<and> Term.text t = ''Foo''"
    by simp
  ultimately show ?thesis
    using h1 h2 by blast
qed

subsection \<open>Splitting and grouping\<close>

lemma parseLoop_parseRun:
  "parseLoop lower fz cm toks sets cur sw
     = (case parseRun lower fz cm toks sets cur sw of (s, c, w) \<Rightarrow> (s, c))"
  by (induction toks arbitrary: sets cur sw) (auto split: tokenResult.splits)

lemma parseRun_append:
  "parseRun lower fz cm (xs @ ys) sets cur sw
     = (case parseRun lower fz cm xs sets cur sw of
          (s, c, w) \<Rightarrow> parseRun lower fz cm ys s c w)"
  by (induction xs arbitrary: sets cur sw) (auto split: tokenResult.splits)

lemma isBar_not_producesTerm: "isBar lower fz cm tk \<Longrightarrow> \<not> producesTerm lower fz cm tk"
  by (simp add: isBar_def producesTerm_def)

lemma afterTerm_snoc:
  "afterTerm lower fz cm (toks @ [tk])
     = (if isBar lower fz cm tk then False
        else if producesTerm lower fz cm tk then True
        else afterTerm lower fz cm toks)"
  by (auto simp add: afterTerm_def Let_def isBar_not_producesTerm)

lemma parseRun_step:
  "parseRun lower fz cm [tk] sets cur sw
     = (if isBar lower fz cm tk then (sets, cur, False)
        else if producesTerm lower fz cm tk then
          (case parseToken lower fz cm tk of
             Parsed t \<Rightarrow> if sw then (sets @ [cur], [t], True) else (sets, cur @ [t], True)
           | Bar \<Rightarrow> (sets, cur, False))
        else (sets, cur, sw))"
  by (auto simp add: isBar_def producesTerm_def split: tokenResult.splits)

lemma parseRun_invariant:
  "parseRun lower fz cm toks [] [] False = (sets, cur, sw) \<Longrightarrow>
   sw = afterTerm lower fz cm toks \<and> (sw \<longrightarrow> cur \<noteq> []) \<and> (cur = [] \<longrightarrow> sets = [])"
proof (induction toks arbitrary: sets cur sw rule: rev_induct)
  case Nil
  then show ?case by (simp add: afterTerm_def)
next
  case (snoc tk toks)
  obtain s c w where r: "parseRun lower fz cm toks [] [] False = (s, c, w)"
    by (cases "parseRun lower fz cm toks [] [] False")
  from snoc.IH [OF r] have ih: "w = afterTerm lower fz cm toks" "w \<longrightarrow> c \<noteq> []"
    "c = [] \<longrightarrow> s = []" by simp_all
  from snoc.prems have st: "parseRun lower fz cm [tk] s c w = (sets, cur, sw)"
    by (simp add: parseRun_append r)
  show ?case
    using st ih
    by (auto simp add: parseRun_step afterTerm_snoc isBar_not_producesTerm isBar_def
        simp del: parseRun.simps split: if_splits tokenResult.splits)
qed

lemma groupsOfTokens_run:
  "groupsOfTokens lower fz cm toks
     = (case parseRun lower fz cm toks [] [] False of
          (sets, cur, sw) \<Rightarrow> if cur \<noteq> [] then sets @ [cur] else sets)"
  by (simp add: groupsOfTokens_def parseLoop_parseRun split: prod.splits)

lemma groupsOfTokens_skip:
  assumes "\<not> producesTerm lower fz cm tk"
  shows "groupsOfTokens lower fz cm (toks @ [tk]) = groupsOfTokens lower fz cm toks"
proof -
  obtain s c w where r: "parseRun lower fz cm toks [] [] False = (s, c, w)"
    by (cases "parseRun lower fz cm toks [] [] False")
  show ?thesis
    using assms
    by (auto simp add: groupsOfTokens_run parseRun_append r parseRun_step
        isBar_not_producesTerm simp del: parseRun.simps)
qed

lemma groupsOfTokens_new:
  assumes "parseToken lower fz cm tk = Parsed t" and "Term.text t \<noteq> []"
    and "afterTerm lower fz cm toks"
  shows "groupsOfTokens lower fz cm (toks @ [tk]) = groupsOfTokens lower fz cm toks @ [[t]]"
proof -
  obtain s c w where r: "parseRun lower fz cm toks [] [] False = (s, c, w)"
    by (cases "parseRun lower fz cm toks [] [] False")
  from parseRun_invariant [OF r] assms(3) have w: "w" "c \<noteq> []"
    by simp_all
  have p: "producesTerm lower fz cm tk" "\<not> isBar lower fz cm tk"
    using assms(1,2) by (simp_all add: producesTerm_def isBar_def)
  show ?thesis
    using w p assms(1)
    by (simp add: groupsOfTokens_run parseRun_append r parseRun_step del: parseRun.simps)
qed

lemma groupsOfTokens_join:
  assumes "parseToken lower fz cm tk = Parsed t" and "Term.text t \<noteq> []"
    and "\<not> afterTerm lower fz cm toks"
  shows "groupsOfTokens lower fz cm (toks @ [tk])
           = (if groupsOfTokens lower fz cm toks = [] then [[t]]
              else butlast (groupsOfTokens lower fz cm toks)
                     @ [last (groupsOfTokens lower fz cm toks) @ [t]])"
proof -
  obtain s c w where r: "parseRun lower fz cm toks [] [] False = (s, c, w)"
    by (cases "parseRun lower fz cm toks [] [] False")
  from parseRun_invariant [OF r] assms(3) have w: "\<not> w" "c = [] \<longrightarrow> s = []"
    by simp_all
  have p: "producesTerm lower fz cm tk" "\<not> isBar lower fz cm tk"
    using assms(1,2) by (simp_all add: producesTerm_def isBar_def)
  show ?thesis
    using w p assms(1)
    by (auto simp add: groupsOfTokens_run parseRun_append r parseRun_step
        simp del: parseRun.simps)
qed

lemma splitFrom_text:
  "\<forall>c \<in> set t. \<not> isSpace c \<Longrightarrow> splitFrom cur (t @ rest) = splitFrom (cur @ t) rest"
  by (induction t arbitrary: cur) simp_all

lemma splitFrom_space:
  assumes "w \<noteq> []" and "\<forall>c \<in> set w. isSpace c" and "rest = [] \<or> \<not> isSpace (hd rest)"
  shows "splitFrom cur (w @ rest) = cur # splitFrom [] rest"
proof -
  obtain c cs where w: "w = c # cs" using assms(1) by (cases w) auto
  have "dropWhile isSpace (cs @ rest) = rest"
    using assms(2,3) unfolding w by (cases rest) (auto simp add: dropWhile_append)
  with assms(2) show ?thesis
    unfolding w by simp
qed

lemma Split_join:
  assumes "length ws = length ts"
    and "\<forall>x \<in> set (t # ts). \<forall>c \<in> set x. \<not> isSpace c"
    and "\<forall>x \<in> set (butlast ts). x \<noteq> []"
    and "\<forall>w \<in> set ws. w \<noteq> [] \<and> (\<forall>c \<in> set w. isSpace c)"
  shows "Split (t @ concat (map2 (@) ws ts)) = t # ts"
proof -
  have "splitFrom cur (t @ concat (map2 (@) ws ts)) = (cur @ t) # ts" for cur
    using assms
  proof (induction ts arbitrary: t ws cur)
    case Nil
    then show ?case by (simp add: splitFrom_text [of t cur "[]", simplified])
  next
    case (Cons t' ts')
    then obtain w ws' where ws: "ws = w # ws'" by (cases ws) auto
    let ?rest = "t' @ concat (map2 (@) ws' ts')"
    have nt: "\<forall>c \<in> set t. \<not> isSpace c" and nt': "\<forall>c \<in> set t'. \<not> isSpace c"
      using Cons.prems(2) by simp_all
    have sw: "w \<noteq> []" "\<forall>c \<in> set w. isSpace c"
      using Cons.prems(4) ws by simp_all
    have hd: "?rest = [] \<or> \<not> isSpace (hd ?rest)"
    proof (cases t')
      case Nil
      with Cons.prems(3) have "ts' = []" by (cases ts') auto
      with Nil Cons.prems(1) ws show ?thesis by simp
    next
      case (Cons a as)
      with nt' show ?thesis by simp
    qed
    have ih: "splitFrom [] ?rest = ([] @ t') # ts'"
    proof (rule Cons.IH)
      show "length ws' = length ts'" using Cons.prems(1) ws by simp
      show "\<forall>x \<in> set (t' # ts'). \<forall>c \<in> set x. \<not> isSpace c" using Cons.prems(2) by simp
      show "\<forall>x \<in> set (butlast ts'). x \<noteq> []" using Cons.prems(3) by (cases ts') auto
      show "\<forall>w \<in> set ws'. w \<noteq> [] \<and> (\<forall>c \<in> set w. isSpace c)" using Cons.prems(4) ws by simp
    qed
    have "splitFrom cur (t @ w @ ?rest) = splitFrom (cur @ t) (w @ ?rest)"
      by (rule splitFrom_text [OF nt])
    also have "\<dots> = (cur @ t) # splitFrom [] ?rest"
      by (rule splitFrom_space [OF sw hd])
    finally show ?case
      using ih by (simp add: ws)
  qed
  from this [of "[]"] show ?thesis by (simp add: Split_def)
qed


lemma isBar_folded: "isBar lower fz cm tk = (foldedToken lower cm tk = ''|'')"
  by (simp add: isBar_def parseToken_unfold)

lemma afterTerm_Nil: "\<not> afterTerm lower fz cm []"
  by (simp add: afterTerm_def)

lemma groupsOfTokens_Nil: "groupsOfTokens lower fz cm [] = []"
  by (simp add: groupsOfTokens_def)

text \<open>
  Claim C6. \<open>parseTerms\<close> groups the tokens that \<open>Split\<close> returns, and \<open>Split\<close> cuts
  the query at the runs of white space: a text of pieces without white space, joined by
  non-empty runs of white space, splits into those pieces (a run at the start or at the
  end leaves an empty piece there). The groups of a list of tokens are built token by
  token. A token that gives no term (\<open>|\<close>, or a token with no text left) leaves the
  groups as they are. A token that gives a term starts a new group when the last token
  before it that is \<open>|\<close> or gives a term gives a term (only white space lies between
  the two terms), and joins the last group when that token is \<open>|\<close> or there is none;
  \<open>afterTerm\<close> says which, and the three rules for it are part of the statement. So
  \<open>a | b c\<close> parses to \<open>[[a, b], [c]]\<close>, \<open>a b\<close> to \<open>[[a], [b]]\<close> and \<open>a | b | c\<close>
  to \<open>[[a, b, c]]\<close>, for every default kind and case mode, when lower-casing leaves the
  four tokens as they are, as \<open>strings.ToLower\<close> does.
\<close>

theorem parseTerms_grouping:
  "parseTerms lower fz cm str = groupsOfTokens lower fz cm (Split str)
   \<and> (length ws = length ts \<and> (\<forall>x \<in> set (t # ts). \<forall>c \<in> set x. \<not> isSpace c)
        \<and> (\<forall>x \<in> set (butlast ts). x \<noteq> [])
        \<and> (\<forall>w \<in> set ws. w \<noteq> [] \<and> (\<forall>c \<in> set w. isSpace c)) \<longrightarrow>
        Split (t @ concat (map2 (@) ws ts)) = t # ts)
   \<and> groupsOfTokens lower fz cm [] = []
   \<and> \<not> afterTerm lower fz cm []
   \<and> isBar lower fz cm tk = (foldedToken lower cm tk = ''|'')
   \<and> (isBar lower fz cm tk \<longrightarrow>
        \<not> producesTerm lower fz cm tk \<and> \<not> afterTerm lower fz cm (toks @ [tk]))
   \<and> (producesTerm lower fz cm tk \<longrightarrow> afterTerm lower fz cm (toks @ [tk]))
   \<and> (\<not> isBar lower fz cm tk \<and> \<not> producesTerm lower fz cm tk \<longrightarrow>
        afterTerm lower fz cm (toks @ [tk]) = afterTerm lower fz cm toks)
   \<and> (\<not> producesTerm lower fz cm tk \<longrightarrow>
        groupsOfTokens lower fz cm (toks @ [tk]) = groupsOfTokens lower fz cm toks)
   \<and> (parseToken lower fz cm tk = Parsed u \<and> Term.text u \<noteq> [] \<and> afterTerm lower fz cm toks
        \<longrightarrow> groupsOfTokens lower fz cm (toks @ [tk]) = groupsOfTokens lower fz cm toks @ [[u]])
   \<and> (parseToken lower fz cm tk = Parsed u \<and> Term.text u \<noteq> []
        \<and> \<not> afterTerm lower fz cm toks \<longrightarrow>
        groupsOfTokens lower fz cm (toks @ [tk])
          = (if groupsOfTokens lower fz cm toks = [] then [[u]]
             else butlast (groupsOfTokens lower fz cm toks)
                    @ [last (groupsOfTokens lower fz cm toks) @ [u]]))
   \<and> (lower ''a'' = ''a'' \<and> lower ''b'' = ''b'' \<and> lower ''c'' = ''c'' \<and> lower ''|'' = ''|''
        \<longrightarrow>
        parseTerms lower fz cm ''a | b c''
          = [[plainTerm fz cm ''a'', plainTerm fz cm ''b''], [plainTerm fz cm ''c'']]
        \<and> parseTerms lower fz cm ''a b'' = [[plainTerm fz cm ''a''], [plainTerm fz cm ''b'']]
        \<and> parseTerms lower fz cm ''a | b | c''
            = [[plainTerm fz cm ''a'', plainTerm fz cm ''b'', plainTerm fz cm ''c'']]
        \<and> parseTerms lower fz cm (''a   |  b'' @ [CHR 0x09, CHR 0x0A] @ ''c'')
            = parseTerms lower fz cm ''a | b c'')"
proof (intro conjI)
  show "parseTerms lower fz cm str = groupsOfTokens lower fz cm (Split str)"
    by (simp add: parseTerms_def groupsOfTokens_def)
  show "length ws = length ts \<and> (\<forall>x \<in> set (t # ts). \<forall>c \<in> set x. \<not> isSpace c)
        \<and> (\<forall>x \<in> set (butlast ts). x \<noteq> [])
        \<and> (\<forall>w \<in> set ws. w \<noteq> [] \<and> (\<forall>c \<in> set w. isSpace c)) \<longrightarrow>
        Split (t @ concat (map2 (@) ws ts)) = t # ts"
    using Split_join [of ws ts t] by blast
  show "groupsOfTokens lower fz cm [] = []"
    by (rule groupsOfTokens_Nil)
  show "\<not> afterTerm lower fz cm []"
    by (rule afterTerm_Nil)
  show "isBar lower fz cm tk = (foldedToken lower cm tk = ''|'')"
    by (rule isBar_folded)
  show "isBar lower fz cm tk \<longrightarrow>
        \<not> producesTerm lower fz cm tk \<and> \<not> afterTerm lower fz cm (toks @ [tk])"
    by (simp add: afterTerm_snoc isBar_not_producesTerm)
  show "producesTerm lower fz cm tk \<longrightarrow> afterTerm lower fz cm (toks @ [tk])"
    using isBar_not_producesTerm [of lower fz cm tk] by (auto simp add: afterTerm_snoc)
  show "\<not> isBar lower fz cm tk \<and> \<not> producesTerm lower fz cm tk \<longrightarrow>
        afterTerm lower fz cm (toks @ [tk]) = afterTerm lower fz cm toks"
    by (simp add: afterTerm_snoc)
  show "\<not> producesTerm lower fz cm tk \<longrightarrow>
        groupsOfTokens lower fz cm (toks @ [tk]) = groupsOfTokens lower fz cm toks"
    using groupsOfTokens_skip [of lower fz cm tk toks] by blast
  show "parseToken lower fz cm tk = Parsed u \<and> Term.text u \<noteq> [] \<and> afterTerm lower fz cm toks
        \<longrightarrow> groupsOfTokens lower fz cm (toks @ [tk]) = groupsOfTokens lower fz cm toks @ [[u]]"
    using groupsOfTokens_new [of lower fz cm tk u toks] by blast
  show "parseToken lower fz cm tk = Parsed u \<and> Term.text u \<noteq> []
        \<and> \<not> afterTerm lower fz cm toks \<longrightarrow>
        groupsOfTokens lower fz cm (toks @ [tk])
          = (if groupsOfTokens lower fz cm toks = [] then [[u]]
             else butlast (groupsOfTokens lower fz cm toks)
                    @ [last (groupsOfTokens lower fz cm toks) @ [u]])"
    using groupsOfTokens_join [of lower fz cm tk u toks] by blast
  show "lower ''a'' = ''a'' \<and> lower ''b'' = ''b'' \<and> lower ''c'' = ''c'' \<and> lower ''|'' = ''|''
        \<longrightarrow>
        parseTerms lower fz cm ''a | b c''
          = [[plainTerm fz cm ''a'', plainTerm fz cm ''b''], [plainTerm fz cm ''c'']]
        \<and> parseTerms lower fz cm ''a b'' = [[plainTerm fz cm ''a''], [plainTerm fz cm ''b'']]
        \<and> parseTerms lower fz cm ''a | b | c''
            = [[plainTerm fz cm ''a'', plainTerm fz cm ''b'', plainTerm fz cm ''c'']]
        \<and> parseTerms lower fz cm (''a   |  b'' @ [CHR 0x09, CHR 0x0A] @ ''c'')
            = parseTerms lower fz cm ''a | b c''"
    using parseTerms_example_queries [of lower fz cm] by blast
qed

theorem parseTerms_grouping_witness:
  "asciiLower ''a'' = ''a'' \<and> asciiLower ''b'' = ''b'' \<and> asciiLower ''c'' = ''c''
   \<and> asciiLower ''|'' = ''|''
   \<and> map (map Term.text) (parseTerms asciiLower True CaseSmart ''a | b c'')
       = [[''a'', ''b''], [''c'']]
   \<and> map (map Term.text) (parseTerms asciiLower True CaseSmart ''a b'') = [[''a''], [''b'']]
   \<and> map (map Term.text) (parseTerms asciiLower True CaseSmart ''a | b | c'')
       = [[''a'', ''b'', ''c'']]
   \<and> Split (''a'' @ concat (map2 (@) [''   '', '' '', [CHR 0x09, CHR '' '']] [''|'', ''b'', ''c'']))
       = [''a'', ''|'', ''b'', ''c'']
   \<and> groupsOfTokens asciiLower True CaseSmart ([''a''] @ [''|''])
       = groupsOfTokens asciiLower True CaseSmart [''a'']
   \<and> groupsOfTokens asciiLower True CaseSmart ([''a'', ''|''] @ [''b''])
       = [[plainTerm True CaseSmart ''a'', plainTerm True CaseSmart ''b'']]
   \<and> groupsOfTokens asciiLower True CaseSmart ([''a'', ''|'', ''b''] @ [''c''])
       = [[plainTerm True CaseSmart ''a'', plainTerm True CaseSmart ''b''],
          [plainTerm True CaseSmart ''c'']]"
proof -
  note g = parseTerms_grouping [where lower = asciiLower and fz = True and cm = CaseSmart]
  note rest2 = conjunct2 [THEN conjunct2]
  note rest4 = rest2 [THEN rest2]
  note rest8 = rest4 [THEN rest4]
  have h: "asciiLower ''a'' = ''a''" "asciiLower ''b'' = ''b''" "asciiLower ''c'' = ''c''"
    "asciiLower ''|'' = ''|''"
    by code_simp+
  have ex: "parseTerms asciiLower True CaseSmart ''a | b c''
          = [[plainTerm True CaseSmart ''a'', plainTerm True CaseSmart ''b''],
             [plainTerm True CaseSmart ''c'']]
        \<and> parseTerms asciiLower True CaseSmart ''a b''
          = [[plainTerm True CaseSmart ''a''], [plainTerm True CaseSmart ''b'']]
        \<and> parseTerms asciiLower True CaseSmart ''a | b | c''
            = [[plainTerm True CaseSmart ''a'', plainTerm True CaseSmart ''b'',
                plainTerm True CaseSmart ''c'']]
        \<and> parseTerms asciiLower True CaseSmart (''a   |  b'' @ [CHR 0x09, CHR 0x0A] @ ''c'')
            = parseTerms asciiLower True CaseSmart ''a | b c''"
    by (rule g [THEN rest8, THEN rest2, THEN conjunct2, THEN mp])
       (intro conjI h)
  have e1: "map (map Term.text) (parseTerms asciiLower True CaseSmart ''a | b c'')
       = [[''a'', ''b''], [''c'']]"
    and e2: "map (map Term.text) (parseTerms asciiLower True CaseSmart ''a b'')
       = [[''a''], [''b'']]"
    and e3: "map (map Term.text) (parseTerms asciiLower True CaseSmart ''a | b | c'')
       = [[''a'', ''b'', ''c'']]"
    using ex by (simp_all add: plainTerm_def)
  have s1: "length [''   '', '' '', [CHR 0x09, CHR '' '']] = length [''|'', ''b'', ''c'']"
    by simp
  have s2: "\<forall>x \<in> set (''a'' # [''|'', ''b'', ''c'']). \<forall>c \<in> set x. \<not> isSpace c"
    by code_simp
  have s3: "\<forall>x \<in> set (butlast [''|'', ''b'', ''c'']). x \<noteq> []"
    by simp
  have s4: "\<forall>w \<in> set [''   '', '' '', [CHR 0x09, CHR '' '']]. w \<noteq> [] \<and> (\<forall>c \<in> set w. isSpace c)"
    by code_simp
  have sp: "Split (''a'' @ concat (map2 (@) [''   '', '' '', [CHR 0x09, CHR '' '']]
      [''|'', ''b'', ''c''])) = [''a'', ''|'', ''b'', ''c'']"
    by (rule g [THEN conjunct2, THEN conjunct1, THEN mp])
       (intro conjI s1 s2 s3 s4)
  have nb: "\<not> producesTerm asciiLower True CaseSmart ''|''"
    by code_simp
  have w4: "groupsOfTokens asciiLower True CaseSmart ([''a''] @ [''|''])
       = groupsOfTokens asciiLower True CaseSmart [''a'']"
    by (rule g [THEN rest8, THEN conjunct1, THEN mp, OF nb])
  have pb: "parseToken asciiLower True CaseSmart ''b'' = Parsed (plainTerm True CaseSmart ''b'')"
    and pc: "parseToken asciiLower True CaseSmart ''c'' = Parsed (plainTerm True CaseSmart ''c'')"
    using h by (simp_all add: parseToken_letter)
  have tb: "Term.text (plainTerm True CaseSmart ''b'') \<noteq> []"
    and tc: "Term.text (plainTerm True CaseSmart ''c'') \<noteq> []"
    by (simp_all add: plainTerm_def)
  have na: "\<not> afterTerm asciiLower True CaseSmart [''a'', ''|'']"
    and ab: "afterTerm asciiLower True CaseSmart [''a'', ''|'', ''b'']"
    by code_simp+
  have ga: "groupsOfTokens asciiLower True CaseSmart [''a'', ''|'']
      = [[plainTerm True CaseSmart ''a'']]"
    and gb: "groupsOfTokens asciiLower True CaseSmart [''a'', ''|'', ''b'']
      = [[plainTerm True CaseSmart ''a'', plainTerm True CaseSmart ''b'']]"
    by code_simp+
  have w2: "groupsOfTokens asciiLower True CaseSmart ([''a'', ''|''] @ [''b''])
       = [[plainTerm True CaseSmart ''a'', plainTerm True CaseSmart ''b'']]"
    using g [THEN rest8, THEN rest2, THEN conjunct1, THEN mp, OF conjI [OF pb conjI [OF tb na]]]
    by (simp add: ga)
  have w3: "groupsOfTokens asciiLower True CaseSmart ([''a'', ''|'', ''b''] @ [''c''])
       = [[plainTerm True CaseSmart ''a'', plainTerm True CaseSmart ''b''],
          [plainTerm True CaseSmart ''c'']]"
    using g [THEN rest8, THEN conjunct2, THEN conjunct1, THEN mp,
        OF conjI [OF pc conjI [OF tc ab]]]
    by (simp add: gb)
  from h e1 e2 e3 sp w4 w2 w3 show ?thesis
    by (intro conjI)
qed

subsection \<open>The groups that parseTerms returns\<close>

lemma parseLoop_concat:
  "parseLoop lower fz cm tokens sets cur sw = (sets', cur') \<Longrightarrow>
     concat sets' @ cur' = concat sets @ cur @ tokenTerms lower fz cm tokens"
  by (induction tokens arbitrary: sets cur sw)
     (auto split: tokenResult.splits if_splits)

lemma concat_parseTerms:
  "concat (parseTerms lower fz cm str) = tokenTerms lower fz cm (Split str)"
proof -
  obtain sets cur where r: "parseLoop lower fz cm (Split str) [] [] False = (sets, cur)"
    by (cases "parseLoop lower fz cm (Split str) [] [] False")
  from parseLoop_concat [OF r] show ?thesis
    by (auto simp add: parseTerms_def r)
qed

lemma parseLoop_nonempty:
  "parseLoop lower fz cm tokens sets cur sw = (sets', cur') \<Longrightarrow>
   [] \<notin> set sets \<Longrightarrow> (sw \<longrightarrow> cur \<noteq> []) \<Longrightarrow> [] \<notin> set sets'"
  by (induction tokens arbitrary: sets cur sw)
     (auto split: tokenResult.splits if_splits)

lemma parseTerms_nonempty: "[] \<notin> set (parseTerms lower fz cm str)"
proof -
  obtain sets cur where r: "parseLoop lower fz cm (Split str) [] [] False = (sets, cur)"
    by (cases "parseLoop lower fz cm (Split str) [] [] False")
  from parseLoop_nonempty [OF r] have "[] \<notin> set sets"
    by simp
  then show ?thesis
    by (simp add: parseTerms_def r)
qed

lemma tokenTerms_text_nonempty:
  "t \<in> set (tokenTerms lower fz cm tokens) \<Longrightarrow> Term.text t \<noteq> []"
  by (induction tokens) (auto split: tokenResult.splits if_splits)

lemma origText_tokenTerms:
  "map Term.origText (tokenTerms lower fz cm tokens)
     = map (foldedToken lower cm) (filter (producesTerm lower fz cm) tokens)"
  by (induction tokens) (auto simp: producesTerm_def parseToken_unfold split: if_splits)

subsection \<open>BuildPattern\<close>

lemma termSetBreaks_pos: "idx > 0 \<Longrightarrow> termSetBreaks idx ts = (ts \<noteq> [])"
  by (cases ts) auto

lemma termSetBreaks_0: "termSetBreaks 0 ts = (ts \<noteq> [] \<and> (inv (hd ts) \<or> tl ts \<noteq> []))"
  by (cases ts) (auto simp: termSetBreaks_pos)

lemma cacheableLoop_iff:
  "cacheableLoop tss = (\<forall>ts \<in> set tss. ts = [] \<or> (\<not> inv (hd ts) \<and> tl ts = []))"
  by (induction tss) (auto simp: termSetBreaks_0)

lemma singleton_iff:
  "ts \<noteq> [] \<Longrightarrow>
   (\<not> inv (hd ts) \<and> tl ts = []) = (length ts = 1 \<and> (\<forall>t \<in> set ts. \<not> inv t))"
  by (cases ts) auto

lemma cacheableLoop_nonempty:
  "[] \<notin> set tss \<Longrightarrow>
   cacheableLoop tss = (\<forall>ts \<in> set tss. length ts = 1 \<and> (\<forall>t \<in> set ts. \<not> inv t))"
  unfolding cacheableLoop_iff
  by (metis singleton_iff)

lemma cacheableTermsLoop_singletons:
  "\<forall>ts \<in> set tss. length ts = 1 \<and> (\<forall>t \<in> set ts. \<not> inv t) \<Longrightarrow>
   cacheableTermsLoop tss acc = acc @ map Term.origText (concat tss)"
proof (induction tss arbitrary: acc)
  case Nil
  then show ?case by simp
next
  case (Cons ts tss)
  then obtain t where "ts = [t]" "\<not> inv t"
    by (cases ts) auto
  with Cons show ?case by simp
qed

lemma newPattern_extended:
  "fst (newPattern ext fz True cm fwd nth' dl s) =
     \<lparr>fuzzy = fz, extended = True, caseSensitive = True, forward = fwd, text = s,
      termSets = parseTerms (ToLower ext) fz cm s,
      cacheable = cacheableLoop (parseTerms (ToLower ext) fz cm s),
      delimiter = dl, nth = nth', procFun = bindProcFun ext\<rparr>"
  "snd (newPattern ext fz True cm fwd nth' dl s) = s"
  by (simp_all add: newPattern_def Let_def)

lemma newPattern_basic:
  "fst (newPattern ext fz False cm fwd nth' dl s) =
     \<lparr>fuzzy = fz, extended = False,
      caseSensitive = tokenCaseSensitive (ToLower ext) cm s, forward = fwd,
      text = foldedToken (ToLower ext) cm s,
      termSets = [], cacheable = True,
      delimiter = dl, nth = nth', procFun = bindProcFun ext\<rparr>"
  "snd (newPattern ext fz False cm fwd nth' dl s) = foldedToken (ToLower ext) cm s"
  by (auto simp add: newPattern_def Let_def tokenCaseSensitive_def foldedToken_def)

lemma BuildPattern_miss:
  assumes "patternCache st (if ex then Trim runes else runes) = None"
  shows "BuildPattern ext fz ex cm fwd nth' dl runes st =
     (length (objects st),
      st\<lparr>objects := objects st
           @ [fst (newPattern ext fz ex cm fwd nth' dl (if ex then Trim runes else runes))],
        patternCache := (patternCache st)
           (snd (newPattern ext fz ex cm fwd nth' dl (if ex then Trim runes else runes))
              \<mapsto> length (objects st))\<rparr>)"
  using assms by (simp add: BuildPattern_def Let_def case_prod_beta)

lemma BuildPattern_hit:
  assumes "patternCache st (if ex then Trim runes else runes) = Some ptr"
  shows "BuildPattern ext fz ex cm fwd nth' dl runes st = (ptr, st)"
  using assms by (simp add: BuildPattern_def Let_def)

lemma builtPattern_miss:
  assumes "patternCache st (if ex then Trim runes else runes) = None"
  shows "builtPattern ext fz ex cm fwd nth' dl runes st =
           fst (newPattern ext fz ex cm fwd nth' dl (if ex then Trim runes else runes))"
  by (simp add: builtPattern_def BuildPattern_miss [OF assms])

lemma builtPattern_extended:
  assumes "patternCache st (Trim runes) = None"
  shows "builtPattern ext fz True cm fwd nth' dl runes st =
           fst (newPattern ext fz True cm fwd nth' dl (Trim runes))"
  using builtPattern_miss [of st True runes] assms by simp

text \<open>In extended mode the object is stored under the string that is looked up, so a
  second call with the same query returns the pointer of the first and leaves the
  store as it is.\<close>

lemma BuildPattern_extended_repeated:
  assumes "BuildPattern ext fz True cm fwd nth' dl runes st = (ptr, st')"
  shows "BuildPattern ext fz True cm fwd nth' dl runes st' = (ptr, st')"
proof (cases "patternCache st (Trim runes)")
  case None
  then have m: "patternCache st (if True then Trim runes else runes) = None"
    by simp
  from assms show ?thesis
    unfolding BuildPattern_miss [OF m]
    by (auto simp add: BuildPattern_def Let_def newPattern_extended)
next
  case (Some a)
  then have h: "patternCache st (if True then Trim runes else runes) = Some a"
    by simp
  from assms show ?thesis
    unfolding BuildPattern_hit [OF h]
    using h by (auto simp add: BuildPattern_def Let_def)
qed

lemma wellBuilt_newPattern: "wellBuilt (fst (newPattern ext fz ex cm fwd nth' dl s))"
  by (cases ex)
     (simp_all add: wellBuilt_def newPattern_extended newPattern_basic parseTerms_nonempty)

lemma storeInv_BuildPattern:
  assumes "storeInv st"
  shows "storeInv (snd (BuildPattern ext fz ex cm fwd nth' dl runes st))"
proof (cases "patternCache st (if ex then Trim runes else runes)")
  case None
  show ?thesis
    unfolding BuildPattern_miss [OF None]
    using assms by (auto simp add: storeInv_def wellBuilt_newPattern less_Suc_eq)
next
  case (Some ptr)
  show ?thesis
    unfolding BuildPattern_hit [OF Some]
    using assms by simp
qed

lemma builtStore_inv: "builtStore st \<Longrightarrow> storeInv st"
proof (induction rule: builtStore.induct)
  case init
  show ?case by (simp add: storeInv_def)
next
  case (build st ext fz ex cm fwd nth' dl runes)
  then show ?case by (simp add: storeInv_BuildPattern)
next
  case (clear st)
  then show ?case by (simp add: storeInv_def clearPatternCache_def)
qed

lemma wellBuilt_builtPattern:
  assumes "patternCache st (if ex then Trim runes else runes) = None \<or> builtStore st"
  shows "wellBuilt (builtPattern ext fz ex cm fwd nth' dl runes st)"
proof (cases "patternCache st (if ex then Trim runes else runes)")
  case None
  show ?thesis
    unfolding builtPattern_miss [OF None] by (rule wellBuilt_newPattern)
next
  case (Some ptr)
  with assms have "storeInv st"
    by (simp add: builtStore_inv)
  with Some have "ptr < length (objects st)" "\<forall>p \<in> set (objects st). wellBuilt p"
    by (auto simp add: storeInv_def)
  then show ?thesis
    unfolding builtPattern_def BuildPattern_hit [OF Some] by simp
qed

lemma wellBuilt_cacheable:
  "wellBuilt p \<Longrightarrow> extended p \<Longrightarrow>
   cacheable p = (\<forall>ts \<in> set (termSets p). length ts = 1 \<and> (\<forall>t \<in> set ts. \<not> inv t))"
  by (simp add: wellBuilt_def cacheableLoop_nonempty)

lemma builtStore_emptyPatterns: "builtStore emptyPatterns"
  unfolding emptyPatterns_def by (rule builtStore.init)

text \<open>
  Claim C3. Let \<open>p\<close> be the Pattern behind the pointer that \<open>BuildPattern\<close> returns.
  When the call constructs it in extended mode (the memo table has no entry for the
  trimmed query), \<open>p\<close> is extended and holds the groups that \<open>parseTerms\<close> returns for
  the trimmed query. When the call constructs it, or returns it from a store that only
  \<open>BuildPattern\<close> has filled, and \<open>p\<close> is extended, its \<open>cacheable\<close> flag is true
  exactly when every group has exactly one term and no term is inverted.
\<close>

theorem BuildPattern_cacheable:
  assumes "p = builtPattern ext fz ex cm fwd nth' dl runes st"
  shows "(ex \<and> patternCache st (Trim runes) = None \<longrightarrow>
            extended p \<and> termSets p = parseTerms (ToLower ext) fz cm (Trim runes))
       \<and> ((patternCache st (if ex then Trim runes else runes) = None \<or> builtStore st)
            \<and> extended p \<longrightarrow>
            cacheable p
              = (\<forall>ts \<in> set (termSets p). length ts = 1 \<and> (\<forall>t \<in> set ts. \<not> inv t)))"
proof (intro conjI impI)
  assume a: "ex \<and> patternCache st (Trim runes) = None"
  then have "p = fst (newPattern ext fz True cm fwd nth' dl (Trim runes))"
    using assms builtPattern_extended [of st runes ext fz cm fwd nth' dl] by simp
  then show "extended p" and "termSets p = parseTerms (ToLower ext) fz cm (Trim runes)"
    by (simp_all add: newPattern_extended)
next
  assume a: "(patternCache st (if ex then Trim runes else runes) = None \<or> builtStore st)
      \<and> extended p"
  then have "wellBuilt p"
    unfolding assms using wellBuilt_builtPattern [of st ex runes ext fz cm fwd nth' dl] by blast
  with a show "cacheable p
      = (\<forall>ts \<in> set (termSets p). length ts = 1 \<and> (\<forall>t \<in> set ts. \<not> inv t))"
    by (simp add: wellBuilt_cacheable)
qed

theorem BuildPattern_cacheable_witness:
  "patternCache emptyPatterns (Trim ''foo | bar'') = None
   \<and> builtStore emptyPatterns
   \<and> extended (builtPattern specExt True True CaseSmart True [] () ''foo | bar'' emptyPatterns)
   \<and> \<not> cacheable (builtPattern specExt True True CaseSmart True [] () ''foo | bar'' emptyPatterns)
   \<and> map length (termSets (builtPattern specExt True True CaseSmart True [] () ''foo | bar''
        emptyPatterns)) = [2]"
proof -
  let ?p = "builtPattern specExt True True CaseSmart True [] () ''foo | bar'' emptyPatterns"
  have h: "patternCache emptyPatterns (Trim ''foo | bar'') = None"
    by (simp add: emptyPatterns_def)
  have ts: "map length (parseTerms (ToLower specExt) True CaseSmart (Trim ''foo | bar'')) = [2]"
    by code_simp
  note c = BuildPattern_cacheable [of _ specExt True True CaseSmart True "[]" "()"
      "''foo | bar''" emptyPatterns, OF refl]
  from c h have e: "extended ?p"
    and t: "termSets ?p = parseTerms (ToLower specExt) True CaseSmart (Trim ''foo | bar'')"
    by simp_all
  from t ts have l: "map length (termSets ?p) = [2]"
    by simp
  from c e builtStore_emptyPatterns
  have "cacheable ?p = (\<forall>ts \<in> set (termSets ?p). length ts = 1 \<and> (\<forall>t \<in> set ts. \<not> inv t))"
    by blast
  with l have n: "\<not> cacheable ?p"
    by auto
  from h builtStore_emptyPatterns e n l show ?thesis
    by (intro conjI)
qed

text \<open>
  Claim C5, as stated: the cache key of a cacheable extended Pattern joins the texts of
  its terms as they were before the case fold. It fails: with case mode \<open>CaseIgnore\<close>
  the query \<open>Foo\<close> gives a cacheable Pattern whose key is \<open>foo\<close>, not \<open>Foo\<close>. The
  loop of \<open>parseTerms\<close> takes \<open>origText\<close> from the token after the fold.
\<close>

theorem CacheKey_unfolded_counterexample:
  "cacheable (patternOf True CaseIgnore ''Foo'') \<and> extended (patternOf True CaseIgnore ''Foo'')
   \<and> CacheKey (patternOf True CaseIgnore ''Foo'') = ''foo''
   \<and> unfoldedKey asciiLower True CaseIgnore ''Foo'' = ''Foo''
   \<and> CacheKey (patternOf True CaseIgnore ''Foo'') \<noteq> unfoldedKey asciiLower True CaseIgnore ''Foo''"
  by code_simp

text \<open>
  Claim C5, amended. For a cacheable Pattern that \<open>BuildPattern\<close> constructs in
  extended mode, \<open>CacheKey\<close> is the space-joined tokens of the trimmed query that give
  a term, in order, each with its modifiers and as it reads after the case fold: folded
  to lower case unless the term is case-sensitive.
\<close>

theorem CacheKey_folded:
  assumes "patternCache st (Trim runes) = None"
    and "cacheable (builtPattern ext fz True cm fwd nth' dl runes st)"
  shows "CacheKey (builtPattern ext fz True cm fwd nth' dl runes st)
           = foldedKey (ToLower ext) fz cm (Trim runes)"
proof -
  let ?tss = "parseTerms (ToLower ext) fz cm (Trim runes)"
  from assms(2) have "cacheableLoop ?tss"
    unfolding builtPattern_extended [OF assms(1)] newPattern_extended by simp
  then have single: "\<forall>ts \<in> set ?tss. length ts = 1 \<and> (\<forall>t \<in> set ts. \<not> inv t)"
    by (simp only: cacheableLoop_nonempty [OF parseTerms_nonempty])
  have "cacheableTermsLoop ?tss [] = map Term.origText (concat ?tss)"
    using cacheableTermsLoop_singletons [OF single, of "[]"] by simp
  also have "\<dots> = map (foldedToken (ToLower ext) cm)
      (filter (producesTerm (ToLower ext) fz cm) (Split (Trim runes)))"
    by (simp add: concat_parseTerms origText_tokenTerms)
  finally show ?thesis
    unfolding builtPattern_extended [OF assms(1)] newPattern_extended
    by (simp add: CacheKey_def foldedKey_def)
qed

theorem CacheKey_folded_witness:
  "patternCache emptyPatterns (Trim ''Foo ^bar'') = None
   \<and> cacheable (builtPattern specExt True True CaseIgnore True [] () ''Foo ^bar'' emptyPatterns)
   \<and> CacheKey (builtPattern specExt True True CaseIgnore True [] () ''Foo ^bar'' emptyPatterns)
       = ''foo ^bar''"
proof -
  have h: "patternCache emptyPatterns (Trim ''Foo ^bar'') = None"
    by (simp add: emptyPatterns_def)
  have c: "cacheable (builtPattern specExt True True CaseIgnore True [] () ''Foo ^bar'' emptyPatterns)"
    by code_simp
  have k: "foldedKey (ToLower specExt) True CaseIgnore (Trim ''Foo ^bar'') = ''foo ^bar''"
    by code_simp
  from CacheKey_folded [OF h c] k h c show ?thesis
    by simp
qed

text \<open>In basic mode with case mode \<open>CaseIgnore\<close>, for every query that lower-casing
  changes and that has no entry yet, the second of two calls allocates a second
  object.\<close>

lemma BuildPattern_basic_repeated:
  assumes "patternCache st runes = None" and "ToLower ext runes \<noteq> runes"
  shows "fst (BuildPattern ext fz False CaseIgnore fwd nth' dl runes
                (snd (BuildPattern ext fz False CaseIgnore fwd nth' dl runes st)))
           = Suc (fst (BuildPattern ext fz False CaseIgnore fwd nth' dl runes st))"
proof -
  have m: "patternCache st (if False then Trim runes else runes) = None"
    using assms(1) by simp
  show ?thesis
    unfolding BuildPattern_miss [OF m]
    using assms
    by (simp add: BuildPattern_def Let_def newPattern_basic foldedToken_def
        tokenCaseSensitive_def case_prod_beta)
qed

text \<open>
  Claim C9 says that a second call of \<open>BuildPattern\<close> with the same arguments returns
  the Pattern of the first. The code does not, in basic mode, for a query that the case
  fold changes: the table is read under the query and written under the folded query.
  With case mode \<open>CaseIgnore\<close> and the query \<open>Foo\<close>, starting from the empty table,
  the first call returns object 0 and stores it under \<open>foo\<close>; the second call finds
  nothing under \<open>Foo\<close>, allocates object 1 and returns it. (In extended mode the
  second call returns the object of the first: \<open>BuildPattern_extended_repeated\<close>.)
\<close>

theorem BuildPattern_memo_miss_repeated:
  "fst (BuildPattern specExt True False CaseIgnore True [] () ''Foo'' emptyPatterns) = 0
   \<and> fst (BuildPattern specExt True False CaseIgnore True [] () ''Foo''
        (snd (BuildPattern specExt True False CaseIgnore True [] () ''Foo'' emptyPatterns))) = 1
   \<and> length (objects (snd (BuildPattern specExt True False CaseIgnore True [] () ''Foo''
        (snd (BuildPattern specExt True False CaseIgnore True [] () ''Foo'' emptyPatterns))))) = 2
   \<and> patternCache (snd (BuildPattern specExt True False CaseIgnore True [] () ''Foo'' emptyPatterns))
        ''Foo'' = None
   \<and> patternCache (snd (BuildPattern specExt True False CaseIgnore True [] () ''Foo'' emptyPatterns))
        ''foo'' = Some 0"
  by code_simp

subsection \<open>Match and the result cache\<close>

lemma ancestorLoop_firstCached:
  "ancestorLoop cc chunk key i =
     firstCached cc chunk
       (concat (map (\<lambda>d. [take (length key - d) key, drop d key]) [i ..< length key]))"
proof (induction cc chunk key i rule: ancestorLoop.induct)
  case (1 cc chunk cacheKey idx)
  show ?case
  proof (cases "idx < length cacheKey")
    case True
    then have u: "[idx ..< length cacheKey] = idx # [idx + 1 ..< length cacheKey]"
      by (simp add: upt_conv_Cons)
    show ?thesis
      using True "1.IH"
      by (subst ancestorLoop.simps) (simp add: u Let_def split: option.splits)
  next
    case False
    then show ?thesis
      by (subst ancestorLoop.simps) simp
  qed
qed

lemma ancestorLoop_keys: "ancestorLoop cc chunk key 1 = firstCached cc chunk (ancestorKeys key)"
  by (simp only: ancestorLoop_firstCached ancestorKeys_def)

lemma ancestorLoop_keys_Suc:
  "ancestorLoop cc chunk key (Suc 0) = firstCached cc chunk (ancestorKeys key)"
  using ancestorLoop_keys [of cc chunk key] by simp


lemma firstCached_None:
  "firstCached cc chunk ks = None \<longleftrightarrow> (\<forall>k \<in> set ks. cc (chunk, k) = None)"
  by (induction ks) (auto simp: Find_def split: option.splits)



lemma Match_hit:
  "cacheable p \<Longrightarrow> Find (cache st) chunk (CacheKey p) = Some cached \<Longrightarrow>
   Match ext p chunk st = (cached, st)"
  by (simp add: Match_def Let_def)

lemma Match_scan:
  assumes "cacheable p \<longrightarrow> Find (cache st) chunk (CacheKey p) = None"
  shows "fst (Match ext p chunk st) = fst (matchChunk ext p (scanSpace st chunk (CacheKey p)))"
  using assms
  by (auto simp add: Match_def Let_def scanSpace_def ancestorLoop_keys_Suc case_prod_beta
      split: option.splits)

lemma Match_store:
  assumes "cacheable p" and "Find (cache st) chunk (CacheKey p) = None"
  shows "Find (cache (snd (Match ext p chunk st))) chunk (CacheKey p)
           = Some (fst (Match ext p chunk st))"
  using assms
  by (auto simp add: Match_def Let_def Find_def Add_def case_prod_beta split: option.splits)


lemma scanSpace_none:
  "\<forall>k \<in> set (ancestorKeys key). Find (cache st) chunk k = None \<Longrightarrow>
   scanSpace st chunk key = chunks st chunk"
  by (simp add: scanSpace_def firstCached_None [THEN iffD2] Find_def)

lemma firstCached_append:
  "\<forall>k' \<in> set ks. Find cc chunk k' = None \<Longrightarrow> Find cc chunk k = Some cached \<Longrightarrow>
   firstCached cc chunk (ks @ k # ks') = Some (k, cached)"
  by (induction ks) simp_all

lemma scanSpace_first:
  "ancestorKeys key = ks @ k # ks' \<Longrightarrow> \<forall>k' \<in> set ks. Find (cache st) chunk k' = None \<Longrightarrow>
   Find (cache st) chunk k = Some cached \<Longrightarrow> scanSpace st chunk key = cached"
  by (simp add: scanSpace_def firstCached_append)


lemma CacheKey_basic: "\<not> extended p \<Longrightarrow> CacheKey p = Pattern.text p"
  by (simp add: CacheKey_def AsString_def)

text \<open>
  Claim C8, as stated: at each drop length \<open>d\<close> the search tries the key without its
  last \<open>d\<close> characters, then the key without its first \<open>d\<close> characters. It fails for
  a key with a character of more than one byte: the loop slices the Go string, so
  \<open>d\<close> counts bytes. The key of three characters \<open>accentKey\<close> has four bytes. In
  characters its ancestors are, in order, the key without \<open>b\<close>, \<open>ab\<close>, the accented
  letter, \<open>b\<close>; the loop tries six keys, two of which cut the accented letter in two,
  and reaches the accented letter (drop length 2, last bytes) before \<open>ab\<close> (drop length
  2, first bytes). With an entry under each of the two, the search in characters takes
  the entry under \<open>ab\<close> (drop length 1) and \<open>Match\<close> scans the entry under the accented
  letter.
\<close>

theorem Match_ancestor_characters_counterexample:
  "CacheKey (patternOf False CaseRespect accentKey) = accentKey
   \<and> Find (cache accentStore) 0 accentKey = None
   \<and> runesOf accentKey = [eAcute, ''a'', ''b'']
   \<and> charAncestorKeys accentKey = [eAcute @ ''a'', ''ab'', eAcute, ''b'']
   \<and> ancestorKeys accentKey
       = [eAcute @ ''a'', [CHR 0xA9] @ ''ab'', eAcute, ''ab'', [CHR 0xC3], ''b'']
   \<and> map_option (\<lambda>(k, e). (k, map Item.text e))
         (firstCached (cache accentStore) 0 (charAncestorKeys accentKey))
       = Some (''ab'', [accentKey, ''ab''])
   \<and> map_option (\<lambda>(k, e). (k, map Item.text e))
         (ancestorLoop (cache accentStore) 0 (CacheKey (patternOf False CaseRespect accentKey)) 1)
       = Some (eAcute, [accentKey, eAcute])
   \<and> map Item.text (scanSpace accentStore 0 (CacheKey (patternOf False CaseRespect accentKey)))
       = [accentKey, eAcute]
   \<and> map Item.text (fst (Match specExt (patternOf False CaseRespect accentKey) 0 accentStore))
       = [accentKey]"
  by code_simp

text \<open>
  Claim C8, amended. When the cache has no entry under the key of the Pattern for the
  chunk, the loop of \<open>Match\<close> looks for an entry under the ancestors of the key for
  increasing drop length \<open>d\<close>, from 1 to the number of bytes of the key less one: at
  each \<open>d\<close> the key without its last \<open>d\<close> bytes, then the key without its first \<open>d\<close>
  bytes (the order of \<open>ancestorKeys\<close>). \<open>Match\<close> returns what \<open>matchChunk\<close> finds in
  the scan space: the items of the first entry found, or the items of the chunk when no
  ancestor has an entry.
\<close>

theorem Match_ancestor_search:
  assumes "Find (cache st) chunk (CacheKey p) = None"
  shows "fst (Match ext p chunk st) = fst (matchChunk ext p (scanSpace st chunk (CacheKey p)))
       \<and> ancestorLoop (cache st) chunk (CacheKey p) 1
           = firstCached (cache st) chunk (ancestorKeys (CacheKey p))
       \<and> ((\<forall>k \<in> set (ancestorKeys (CacheKey p)). Find (cache st) chunk k = None) \<longrightarrow>
            scanSpace st chunk (CacheKey p) = chunks st chunk)
       \<and> (ancestorKeys (CacheKey p) = ks @ k # ks'
            \<and> (\<forall>k' \<in> set ks. Find (cache st) chunk k' = None)
            \<and> Find (cache st) chunk k = Some cached \<longrightarrow>
            scanSpace st chunk (CacheKey p) = cached)
       \<and> ancestorKeys (CacheKey p)
           = concat (map (\<lambda>d. [take (length (CacheKey p) - d) (CacheKey p), drop d (CacheKey p)])
                      [1 ..< length (CacheKey p)])
       \<and> length (ancestorKeys (CacheKey p)) = 2 * (length (CacheKey p) - 1)"
proof (intro conjI)
  show "ancestorKeys (CacheKey p)
           = concat (map (\<lambda>d. [take (length (CacheKey p) - d) (CacheKey p), drop d (CacheKey p)])
                      [1 ..< length (CacheKey p)])"
    by (simp add: ancestorKeys_def)
  show "length (ancestorKeys (CacheKey p)) = 2 * (length (CacheKey p) - 1)"
    by (simp add: ancestorKeys_def length_concat comp_def sum_list_triv)
  show "fst (Match ext p chunk st) = fst (matchChunk ext p (scanSpace st chunk (CacheKey p)))"
    using assms by (simp add: Match_scan)
  show "ancestorLoop (cache st) chunk (CacheKey p) 1
           = firstCached (cache st) chunk (ancestorKeys (CacheKey p))"
    by (rule ancestorLoop_keys)
  show "(\<forall>k \<in> set (ancestorKeys (CacheKey p)). Find (cache st) chunk k = None) \<longrightarrow>
            scanSpace st chunk (CacheKey p) = chunks st chunk"
    using scanSpace_none [of "CacheKey p" st chunk] by blast
  show "ancestorKeys (CacheKey p) = ks @ k # ks'
            \<and> (\<forall>k' \<in> set ks. Find (cache st) chunk k' = None)
            \<and> Find (cache st) chunk k = Some cached \<longrightarrow>
            scanSpace st chunk (CacheKey p) = cached"
    using scanSpace_first [of "CacheKey p" ks k ks' st chunk cached] by blast
qed

theorem Match_ancestor_search_witness:
  "Find (cache twoEntries) 0 (CacheKey (patternOf False CaseSmart ''abc'')) = None
   \<and> ancestorKeys (CacheKey (patternOf False CaseSmart ''abc'')) = [''ab''] @ ''bc'' # [''a'', ''c'']
   \<and> Find (cache twoEntries) 0 ''ab'' = None
   \<and> Find (cache twoEntries) 0 ''bc'' = Some [mkItem ''xbc'' 1]
   \<and> scanSpace twoEntries 0 (CacheKey (patternOf False CaseSmart ''abc'')) = [mkItem ''xbc'' 1]
   \<and> fst (Match specExt (patternOf False CaseSmart ''abc'') 0 twoEntries) = []
   \<and> map Item.text (fst (matchChunk specExt (patternOf False CaseSmart ''abc'') (chunks twoEntries 0)))
       = [''abc'']"
proof -
  let ?p = "patternOf False CaseSmart ''abc''"
  have h: "Find (cache twoEntries) 0 (CacheKey ?p) = None"
    by code_simp
  have ks: "ancestorKeys (CacheKey ?p) = [''ab''] @ ''bc'' # [''a'', ''c'']"
    by code_simp
  have f1: "\<forall>k' \<in> set [''ab'']. Find (cache twoEntries) 0 k' = None"
    by code_simp
  have f1': "Find (cache twoEntries) 0 ''ab'' = None"
    by code_simp
  have f2: "Find (cache twoEntries) 0 ''bc'' = Some [mkItem ''xbc'' 1]"
    by code_simp
  note m = Match_ancestor_search [OF h, of specExt "[''ab'']" "''bc''" "[''a'', ''c'']"
      "[mkItem ''xbc'' 1]"]
  have sp: "scanSpace twoEntries 0 (CacheKey ?p) = [mkItem ''xbc'' 1]"
    by (rule m [THEN conjunct2, THEN conjunct2, THEN conjunct2, THEN conjunct1, THEN mp])
       (intro conjI ks f1 f2)
  have sc: "fst (matchChunk specExt ?p [mkItem ''xbc'' 1]) = []"
    by code_simp
  have r: "fst (Match specExt ?p 0 twoEntries) = []"
    using m [THEN conjunct1] by (simp only: sp sc)
  have full: "map Item.text (fst (matchChunk specExt ?p (chunks twoEntries 0))) = [''abc'']"
    by code_simp
  from h ks f1' f2 sp r full show ?thesis
    by (intro conjI)
qed
















text \<open>
  Claim C10. Let \<open>p\<close> be the Pattern behind the pointer that \<open>BuildPattern\<close> returns
  in basic mode. When the call constructs it (the memo table has no entry for the
  query), \<open>p\<close> is not extended and its text is the query, folded to lower case when
  the resolved case sensitivity is false. When the call constructs it, or returns it
  from a store that only \<open>BuildPattern\<close> has filled, and \<open>p\<close> is not extended, then
  \<open>p\<close> is cacheable and has no groups, and its cache key is its text; so \<open>Match\<close>
  returns the entry cached under that text when there is one, and otherwise scans the
  scan space that the ancestors of that text select and stores the result under that
  text.
\<close>

theorem basic_pattern_cacheable:
  assumes "p = builtPattern ext fz False cm fwd nth' dl runes ps"
  shows "(patternCache ps runes = None \<longrightarrow>
            \<not> extended p
            \<and> Pattern.caseSensitive p
                = (cm = CaseRespect \<or> cm = CaseSmart \<and> ToLower ext runes \<noteq> runes)
            \<and> Pattern.text p
                = (if Pattern.caseSensitive p then runes else ToLower ext runes))
       \<and> ((patternCache ps runes = None \<or> builtStore ps) \<and> \<not> extended p \<longrightarrow>
            cacheable p \<and> termSets p = [] \<and> CacheKey p = Pattern.text p
            \<and> (Find (cache st) chunk (CacheKey p) = Some cached \<longrightarrow>
                 Match ext p chunk st = (cached, st))
            \<and> (Find (cache st) chunk (CacheKey p) = None \<longrightarrow>
                 fst (Match ext p chunk st)
                   = fst (matchChunk ext p (scanSpace st chunk (CacheKey p)))
                 \<and> Find (cache (snd (Match ext p chunk st))) chunk (CacheKey p)
                     = Some (fst (Match ext p chunk st))))"
proof (intro conjI impI)
  assume m: "patternCache ps runes = None"
  have b: "p = fst (newPattern ext fz False cm fwd nth' dl runes)"
    unfolding assms using builtPattern_miss [of ps False runes] m by simp
  show "\<not> extended p"
    and "Pattern.caseSensitive p
           = (cm = CaseRespect \<or> cm = CaseSmart \<and> ToLower ext runes \<noteq> runes)"
    and "Pattern.text p = (if Pattern.caseSensitive p then runes else ToLower ext runes)"
    unfolding b newPattern_basic
    by (auto simp add: tokenCaseSensitive_def foldedToken_def)
next
  assume a: "(patternCache ps runes = None \<or> builtStore ps) \<and> \<not> extended p"
  then have "wellBuilt p"
    unfolding assms using wellBuilt_builtPattern [of ps False runes ext fz cm fwd nth' dl]
    by auto
  with a show c: "cacheable p" and "termSets p = []"
    by (simp_all add: wellBuilt_def)
  from a show "CacheKey p = Pattern.text p"
    by (simp add: CacheKey_basic)
  show "fst (Match ext p chunk st) = fst (matchChunk ext p (scanSpace st chunk (CacheKey p)))"
    if "Find (cache st) chunk (CacheKey p) = None"
    using that by (simp add: Match_scan)
  show "Find (cache (snd (Match ext p chunk st))) chunk (CacheKey p)
          = Some (fst (Match ext p chunk st))"
    if "Find (cache st) chunk (CacheKey p) = None"
    using that c by (simp add: Match_store)
  show "Match ext p chunk st = (cached, st)"
    if "Find (cache st) chunk (CacheKey p) = Some cached"
    using that c by (simp add: Match_hit)
qed

theorem basic_pattern_cacheable_witness:
  "patternCache emptyPatterns ''Foo'' = None
   \<and> \<not> extended (builtPattern specExt True False CaseIgnore True [] () ''Foo'' emptyPatterns)
   \<and> cacheable (builtPattern specExt True False CaseIgnore True [] () ''Foo'' emptyPatterns)
   \<and> CacheKey (builtPattern specExt True False CaseIgnore True [] () ''Foo'' emptyPatterns)
       = ''foo''
   \<and> Find (cache (storeWithEntry [mkItem ''foo'' 0] ''foo'' [])) 0 ''foo'' = Some []
   \<and> fst (Match specExt
        (builtPattern specExt True False CaseIgnore True [] () ''Foo'' emptyPatterns) 0
        (storeWithEntry [mkItem ''foo'' 0] ''foo'' [])) = []
   \<and> Find (cache (freshStore [mkItem ''foo'' 0])) 0 ''foo'' = None
   \<and> Find (cache (snd (Match specExt
        (builtPattern specExt True False CaseIgnore True [] () ''Foo'' emptyPatterns) 0
        (freshStore [mkItem ''foo'' 0])))) 0 ''foo''
       = Some (fst (Match specExt
           (builtPattern specExt True False CaseIgnore True [] () ''Foo'' emptyPatterns) 0
           (freshStore [mkItem ''foo'' 0])))"
proof -
  let ?p = "builtPattern specExt True False CaseIgnore True [] () ''Foo'' emptyPatterns"
  let ?hit = "storeWithEntry [mkItem ''foo'' 0] ''foo'' []"
  let ?miss = "freshStore [mkItem ''foo'' 0]"
  have h: "patternCache emptyPatterns ''Foo'' = None"
    by (simp add: emptyPatterns_def)
  have lo: "ToLower specExt ''Foo'' = ''foo''"
    by code_simp
  note b = basic_pattern_cacheable [of _ specExt True CaseIgnore True "[]" "()" "''Foo''"
      emptyPatterns, OF refl]
  note b1 = b [THEN conjunct1, THEN mp, OF h]
  have e: "\<not> extended ?p"
    by (rule b1 [THEN conjunct1])
  have tx: "Pattern.text ?p = ''foo''"
    using b1 by (simp add: lo)
  note b2 = b [THEN conjunct2, THEN mp, OF conjI [OF disjI1 [OF h] e]]
  have c: "cacheable ?p"
    by (rule b2 [THEN conjunct1])
  have k: "CacheKey ?p = ''foo''"
    using b2 [THEN conjunct2, THEN conjunct2, THEN conjunct1] tx by simp
  have f1: "Find (cache ?hit) 0 ''foo'' = Some []"
    by (simp add: storeWithEntry_def Find_def)
  have f2: "Find (cache ?miss) 0 ''foo'' = None"
    by (simp add: freshStore_def Find_def)
  note rest3 = conjunct2 [THEN conjunct2, THEN conjunct2]
  note hit = b2 [of ?hit 0 "[]", THEN rest3, THEN conjunct1, unfolded k, THEN mp, OF f1]
  note miss = b2 [of ?miss 0, THEN rest3, THEN conjunct2, unfolded k, THEN mp, OF f2]
  have r1: "fst (Match specExt ?p 0 ?hit) = []"
    by (simp only: hit fst_conv)
  have r2: "Find (cache (snd (Match specExt ?p 0 ?miss))) 0 ''foo''
       = Some (fst (Match specExt ?p 0 ?miss))"
    by (rule miss [THEN conjunct2])
  from h e c k f1 r1 f2 r2 show ?thesis
    by (intro conjI)
qed

text \<open>The reuse of an ancestor entry for the queries \<open>a$\<close> and \<open>a$b\<close>, for any
  collaborators of which the suffix matcher does not find \<open>a\<close> at the end of \<open>a$b\<close>
  and the fuzzy matcher finds \<open>a$b\<close> in \<open>a$b\<close>.\<close>

lemma Split_a_dollar: "Split ''a$'' = [''a$'']" "Split ''a$b'' = [''a$b'']"
  by code_simp+

lemma parseTerms_a_dollar:
  assumes "lower ''a$'' = ''a$''"
  shows "parseTerms lower True CaseSmart ''a$''
           = [[\<lparr>typ = termSuffix, inv = False, text = ''a'', caseSensitive = False,
                origText = ''a$''\<rparr>]]"
  using assms
  by (simp add: parseTerms_def Split_a_dollar parseToken_unfold foldedToken_def
      tokenCaseSensitive_def modifiers_def HasPrefix_def HasSuffix_def)

lemma parseTerms_a_dollar_b:
  assumes "lower ''a$b'' = ''a$b''"
  shows "parseTerms lower True CaseSmart ''a$b''
           = [[\<lparr>typ = termFuzzy, inv = False, text = ''a$b'', caseSensitive = False,
                origText = ''a$b''\<rparr>]]"
  using assms
  by (simp add: parseTerms_def Split_a_dollar parseToken_unfold foldedToken_def
      tokenCaseSensitive_def modifiers_def HasPrefix_def HasSuffix_def)


lemma prepareInput_fresh:
  assumes "nth p = []" and "transformed item = None"
  shows "prepareInput ext p item =
     ([\<lparr>Token.text = Item.text item, prefixLength = 0, trimLength = TrimLen ext (Item.text item)\<rparr>],
      item\<lparr>transformed := Some [\<lparr>Token.text = Item.text item, prefixLength = 0,
                                    trimLength = TrimLen ext (Item.text item)\<rparr>]\<rparr>)"
  using assms by (simp add: prepareInput_def Let_def)

lemma iter_single:
  "iter pfun [tok] cs fwd pat =
     (if fst (pfun cs fwd (Token.text tok) pat) \<ge> 0
      then (fst (pfun cs fwd (Token.text tok) pat) + prefixLength tok,
            snd (pfun cs fwd (Token.text tok) pat) + prefixLength tok, trimLength tok)
      else (- 1, - 1, - 1))"
  by (simp split: prod.splits)

lemma Match_reuse_differs_general:
  fixes ext :: "('d, 'r) externals" and item :: "('o, 'c) Item"
  assumes lower: "ToLower ext ''a$'' = ''a$''" "ToLower ext ''a$b'' = ''a$b''"
    and miss: "fst (SuffixMatch ext False fwd ''a$b'' ''a'') < 0"
    and hit: "fst (FuzzyMatch ext False fwd ''a$b'' ''a$b'') \<ge> 0"
    and item: "Item.text item = ''a$b''" "transformed item = None"
    and pA: "pA = fst (newPattern ext True True CaseSmart fwd [] dl ''a$'')"
    and pB: "pB = fst (newPattern ext True True CaseSmart fwd [] dl ''a$b'')"
    and st: "chunks st 0 = [item]" "cache st = Map.empty"
  shows "cacheable pA \<and> cacheable pB
       \<and> fst (Match ext pB 0 (snd (Match ext pA 0 st))) = []
       \<and> length (fst (matchChunk ext pB [item])) = 1"
proof -
  have A: "pA = \<lparr>fuzzy = True, extended = True, caseSensitive = True, forward = fwd,
      text = ''a$'',
      termSets = [[\<lparr>typ = termSuffix, inv = False, text = ''a'', caseSensitive = False,
                origText = ''a$''\<rparr>]],
      cacheable = True, delimiter = dl, nth = [], procFun = bindProcFun ext\<rparr>"
    unfolding pA newPattern_extended parseTerms_a_dollar [of "ToLower ext", OF lower(1)] by simp
  have B: "pB = \<lparr>fuzzy = True, extended = True, caseSensitive = True, forward = fwd,
      text = ''a$b'',
      termSets = [[\<lparr>typ = termFuzzy, inv = False, text = ''a$b'', caseSensitive = False,
                origText = ''a$b''\<rparr>]],
      cacheable = True, delimiter = dl, nth = [], procFun = bindProcFun ext\<rparr>"
    unfolding pB newPattern_extended parseTerms_a_dollar_b [of "ToLower ext", OF lower(2)] by simp
  have kA: "CacheKey pA = ''a$''" and kB: "CacheKey pB = ''a$b''"
    by (simp_all add: A B CacheKey_def)
  have cA: "cacheable pA" and cB: "cacheable pB"
    by (simp_all add: A B)
  have nA: "nth pA = []" and nB: "nth pB = []"
    by (simp_all add: A B)
  obtain sa ea where ma: "SuffixMatch ext False fwd ''a$b'' ''a'' = (sa, ea)" and "sa < 0"
    using miss by (cases "SuffixMatch ext False fwd ''a$b'' ''a''") simp
  obtain sb eb where mb: "FuzzyMatch ext False fwd ''a$b'' ''a$b'' = (sb, eb)" and "sb \<ge> 0"
    using hit by (cases "FuzzyMatch ext False fwd ''a$b'' ''a$b''") simp
  have scanA: "fst (matchChunk ext pA [item]) = []"
    using \<open>sa < 0\<close>
    by (simp add: matchChunk_def extendedMatch_def prepareInput_fresh [OF nA item(2)] item(1))
       (simp add: A bindProcFun_def ma)
  have scanB: "length (fst (matchChunk ext pB [item])) = 1"
    using \<open>sb \<ge> 0\<close>
    by (simp add: matchChunk_def extendedMatch_def prepareInput_fresh [OF nB item(2)] item(1))
       (simp add: B bindProcFun_def mb)
  have none: "firstCached (cache st) 0 (ancestorKeys ''a$'') = None"
    by (simp add: firstCached_None st(2))
  have first: "Match ext pA 0 st =
      ([], st\<lparr>chunks := (chunks st)(0 := snd (matchChunk ext pA [item])),
              cache := Add (cache st) 0 ''a$'' []\<rparr>)"
    using scanA
    by (simp add: Match_def Let_def kA cA Find_def st ancestorLoop_keys_Suc none [unfolded st(2)]
        case_prod_beta)
  have keys: "ancestorKeys ''a$b'' = [''a$'', ''$b'', ''a'', ''b'']"
    by code_simp
  have c1: "cache (snd (Match ext pA 0 st)) = [(0, ''a$'') \<mapsto> []]"
    unfolding first by (simp add: Add_def st(2))
  have f: "Find (cache (snd (Match ext pA 0 st))) 0 (CacheKey pB) = None"
    unfolding c1 kB by (simp add: Find_def)
  have sp: "scanSpace (snd (Match ext pA 0 st)) 0 ''a$b'' = []"
    unfolding scanSpace_def c1 keys by (simp add: Find_def)
  have empty: "fst (matchChunk ext pB []) = []"
    by (simp add: matchChunk_def)
  have second: "fst (Match ext pB 0 (snd (Match ext pA 0 st))) = []"
    using Match_scan [of pB "snd (Match ext pA 0 st)" 0 ext] f
    by (simp only: kB sp empty simp_thms)
  from cA cB second scanB show ?thesis
    by (intro conjI)
qed

text \<open>
  Claim C2 says that a scan over a cached ancestor entry gives the result of a scan
  over the full chunk, for every cacheable Pattern. The code does not: in extended mode
  the queries \<open>a$\<close> (text ends in \<open>a\<close>) and \<open>a$b\<close> (fuzzy match of \<open>a$b\<close>) are
  both cacheable, with the keys \<open>a$\<close> and \<open>a$b\<close>. On a chunk that holds the item
  \<open>a$b\<close>, \<open>Match\<close> for \<open>a$\<close> finds nothing and stores that under \<open>a$\<close>; \<open>Match\<close>
  for \<open>a$b\<close> then scans that empty entry, the key without its last byte, and returns
  nothing, while a scan of the chunk finds the item. (\<open>Match_reuse_differs_general\<close>
  shows the same for any matchers that agree with these two on the two texts.)
\<close>

theorem Match_reuse_differs_from_full_scan:
  "cacheable (patternOf True CaseSmart ''a$'') \<and> cacheable (patternOf True CaseSmart ''a$b'')
   \<and> CacheKey (patternOf True CaseSmart ''a$'') = ''a$''
   \<and> CacheKey (patternOf True CaseSmart ''a$b'') = ''a$b''
   \<and> fst (Match specExt (patternOf True CaseSmart ''a$'') 0 (freshStore [mkItem ''a$b'' 0])) = []
   \<and> Find (cache (snd (Match specExt (patternOf True CaseSmart ''a$'') 0
        (freshStore [mkItem ''a$b'' 0])))) 0 ''a$b'' = None
   \<and> scanSpace (snd (Match specExt (patternOf True CaseSmart ''a$'') 0
        (freshStore [mkItem ''a$b'' 0]))) 0 ''a$b'' = []
   \<and> fst (Match specExt (patternOf True CaseSmart ''a$b'') 0
        (snd (Match specExt (patternOf True CaseSmart ''a$'') 0
           (freshStore [mkItem ''a$b'' 0])))) = []
   \<and> map Item.text (fst (matchChunk specExt (patternOf True CaseSmart ''a$b'')
        (chunks (snd (Match specExt (patternOf True CaseSmart ''a$'') 0
           (freshStore [mkItem ''a$b'' 0]))) 0))) = [''a$b'']
   \<and> map Item.text (fst (Match specExt (patternOf True CaseSmart ''a$b'') 0
        (freshStore [mkItem ''a$b'' 0]))) = [''a$b'']"
  by code_simp

subsection \<open>Extended evaluation\<close>

lemma matchTermSet_step:
  "matchTermSet p input (t # ts) =
     (if termHits p input t then (if inv t then BreakLoop else Appended (termOffset p input t))
      else if inv t then Appended (0, 0, 0)
      else matchTermSet p input ts)"
  by (simp add: termHits_def termOffset_def termResult_def split: prod.splits)

lemma matchTermSet_passedOver:
  "passedOver p input pre \<Longrightarrow> matchTermSet p input (pre @ ts) = matchTermSet p input ts"
  by (induction pre) (simp_all add: passedOver_def matchTermSet_step del: matchTermSet.simps)

lemma matchTermSet_exhausted: "passedOver p input ts \<Longrightarrow> matchTermSet p input ts = Exhausted"
  using matchTermSet_passedOver [of p input ts "[]"] by simp

lemma setSatisfied_iff_Appended:
  "setSatisfied p input ts \<longleftrightarrow> (\<exists>off. matchTermSet p input ts = Appended off)"
  by (induction ts)
     (simp_all add: matchTermSet_step del: matchTermSet.simps(2) split_paired_Ex)

lemma setSatisfied_shape:
  "setSatisfied p input ts \<longleftrightarrow>
     (\<exists>pre t post. ts = pre @ t # post \<and> passedOver p input pre
        \<and> inv t \<noteq> termHits p input t)"
proof (induction ts)
  case Nil
  then show ?case by simp
next
  case (Cons u us)
  show ?case
  proof (cases "inv u \<or> termHits p input u")
    case True
    have "(\<exists>pre t post. u # us = pre @ t # post \<and> passedOver p input pre
        \<and> inv t \<noteq> termHits p input t) \<longleftrightarrow> inv u \<noteq> termHits p input u"
    proof
      assume "\<exists>pre t post. u # us = pre @ t # post \<and> passedOver p input pre
        \<and> inv t \<noteq> termHits p input t"
      then obtain pre t post where e: "u # us = pre @ t # post" "passedOver p input pre"
        "inv t \<noteq> termHits p input t" by blast
      show "inv u \<noteq> termHits p input u"
      proof (cases pre)
        case Nil
        with e show ?thesis by simp
      next
        case (Cons a as)
        with e True show ?thesis by (simp add: passedOver_def)
      qed
    next
      assume "inv u \<noteq> termHits p input u"
      then have "u # us = [] @ u # us \<and> passedOver p input [] \<and> inv u \<noteq> termHits p input u"
        by (simp add: passedOver_def)
      then show "\<exists>pre t post. u # us = pre @ t # post \<and> passedOver p input pre
        \<and> inv t \<noteq> termHits p input t" by blast
    qed
    with True show ?thesis by auto
  next
    case False
    have "(\<exists>pre t post. u # us = pre @ t # post \<and> passedOver p input pre
        \<and> inv t \<noteq> termHits p input t) \<longleftrightarrow>
        (\<exists>pre t post. us = pre @ t # post \<and> passedOver p input pre
        \<and> inv t \<noteq> termHits p input t)"
    proof
      assume "\<exists>pre t post. u # us = pre @ t # post \<and> passedOver p input pre
        \<and> inv t \<noteq> termHits p input t"
      then obtain pre t post where e: "u # us = pre @ t # post" "passedOver p input pre"
        "inv t \<noteq> termHits p input t" by blast
      show "\<exists>pre t post. us = pre @ t # post \<and> passedOver p input pre
        \<and> inv t \<noteq> termHits p input t"
      proof (cases pre)
        case Nil
        with e False show ?thesis by auto
      next
        case (Cons a as)
        with e have "us = as @ t # post \<and> passedOver p input as \<and> inv t \<noteq> termHits p input t"
          by (simp add: passedOver_def)
        then show ?thesis by blast
      qed
    next
      assume "\<exists>pre t post. us = pre @ t # post \<and> passedOver p input pre
        \<and> inv t \<noteq> termHits p input t"
      then obtain pre t post where e: "us = pre @ t # post" "passedOver p input pre"
        "inv t \<noteq> termHits p input t" by blast
      with False have "u # us = (u # pre) @ t # post \<and> passedOver p input (u # pre)
        \<and> inv t \<noteq> termHits p input t"
        by (simp add: passedOver_def)
      then show "\<exists>pre t post. u # us = pre @ t # post \<and> passedOver p input pre
        \<and> inv t \<noteq> termHits p input t" by blast
    qed
    with False Cons.IH show ?thesis by simp
  qed
qed

lemma extendedLoop_length:
  "length (extendedLoop p input tss offs) \<le> length offs + length tss
   \<and> (length (extendedLoop p input tss offs) = length offs + length tss
        \<longleftrightarrow> list_all (setSatisfied p input) tss)"
proof (induction tss arbitrary: offs)
  case Nil
  then show ?case by simp
next
  case (Cons ts tss)
  show ?case
  proof (cases "matchTermSet p input ts")
    case BreakLoop
    then have "\<not> setSatisfied p input ts"
      by (simp add: setSatisfied_iff_Appended)
    with BreakLoop show ?thesis by simp
  next
    case (Appended off)
    then have "setSatisfied p input ts"
      by (simp add: setSatisfied_iff_Appended del: split_paired_Ex)
    with Appended Cons.IH [of "offs @ [off]"] show ?thesis by simp
  next
    case Exhausted
    then have "\<not> setSatisfied p input ts"
      by (simp add: setSatisfied_iff_Appended)
    with Exhausted Cons.IH [of offs] show ?thesis by simp
  qed
qed

lemma MatchItem_extended:
  "extended p \<Longrightarrow>
   fst (MatchItem ext p item)
     = (length (fst (extendedMatch ext p item)) = length (termSets p))"
  by (simp add: MatchItem_def split: prod.splits)

lemma extendedMatch_loop:
  "fst (extendedMatch ext p item)
     = extendedLoop p (fst (prepareInput ext p item)) (termSets p) []"
  by (simp add: extendedMatch_def split: prod.splits)

lemma MatchItem_satisfied:
  "extended p \<Longrightarrow>
   fst (MatchItem ext p item)
     = list_all (setSatisfied p (fst (prepareInput ext p item))) (termSets p)"
  using extendedLoop_length [of p "fst (prepareInput ext p item)" "termSets p" "[]"]
  by (simp add: MatchItem_extended extendedMatch_loop)

lemma iter_first_hit:
  assumes "list_all (\<lambda>q. fst (pfun cs fwd (Token.text q) pat) < 0) tpre"
    and "pfun cs fwd (Token.text part) pat = (s, e)" and "s \<ge> 0"
  shows "iter pfun (tpre @ part # tpost) cs fwd pat
           = (s + prefixLength part, e + prefixLength part, trimLength part)"
  using assms by (induction tpre) (auto split: prod.splits)

lemma extendedLoop_hit:
  "passedOver p input pre \<Longrightarrow> \<not> inv t \<Longrightarrow> termHits p input t \<Longrightarrow>
   extendedLoop p input ((pre @ t # post) # rest) offs
     = extendedLoop p input rest (offs @ [termOffset p input t])"
  by (simp add: matchTermSet_passedOver matchTermSet_step del: matchTermSet.simps)

lemma extendedLoop_inverted_hit:
  "passedOver p input pre \<Longrightarrow> inv t \<Longrightarrow> termHits p input t \<Longrightarrow>
   extendedLoop p input ((pre @ t # post) # rest) offs = offs"
  by (simp add: matchTermSet_passedOver matchTermSet_step del: matchTermSet.simps)

lemma extendedLoop_inverted_miss:
  "passedOver p input pre \<Longrightarrow> inv t \<Longrightarrow> \<not> termHits p input t \<Longrightarrow>
   extendedLoop p input ((pre @ t # post) # rest) offs
     = extendedLoop p input rest (offs @ [(0, 0, 0)])"
  by (simp add: matchTermSet_passedOver matchTermSet_step del: matchTermSet.simps)

lemma inverted_hit_unsatisfied:
  "passedOver p input pre \<Longrightarrow> inv t \<Longrightarrow> termHits p input t \<Longrightarrow>
   \<not> setSatisfied p input (pre @ t # post)"
  by (simp add: setSatisfied_iff_Appended matchTermSet_passedOver matchTermSet_step
      del: matchTermSet.simps)

lemma iter_all_miss:
  "list_all (\<lambda>q. fst (pfun cs fwd (Token.text q) pat) < 0) toks \<Longrightarrow>
   iter pfun toks cs fwd pat = (- 1, - 1, - 1)"
  by (induction toks) (auto split: prod.splits)

text \<open>
  Claim C1. For an extended Pattern and an item, with the terms of each set tried in
  order: the item matches exactly when every set is satisfied, and exactly when
  \<open>extendedMatch\<close> collects as many offsets as there are sets. A set is satisfied when
  its first term that is not passed over (not inverted, and missing) either hits and is
  not inverted or misses and is inverted. When the loop reaches a term of a set, a term
  that hits and is not inverted appends its offset and the loop goes to the next set;
  an inverted term that hits ends the whole loop with the offsets collected so far, so
  the item does not match; an inverted term that misses appends \<open>(0, 0, 0)\<close> and the
  loop goes to the next set. In each case the terms of the set behind that term
  (\<open>post\<close>) are not tried. The tokens tried are the fields stored in the item, or
  the whole text at prefix length 0 when none are stored and no fields are selected. A
  term hits on the first token on which its matcher returns a start index that is not
  negative, and the offset it contributes is the span the matcher returns there, moved
  by the prefix length of that token, with the trimmed length of that token, each
  converted to \<open>int32\<close>; a term whose matcher misses on every token misses.
\<close>

theorem extendedMatch_semantics:
  assumes "extended p"
  shows "fst (MatchItem ext p item)
           = (\<forall>ts \<in> set (termSets p). setSatisfied p (fst (prepareInput ext p item)) ts)
       \<and> fst (MatchItem ext p item)
           = (length (fst (extendedMatch ext p item)) = length (termSets p))
       \<and> fst (extendedMatch ext p item)
           = extendedLoop p (fst (prepareInput ext p item)) (termSets p) []
       \<and> setSatisfied p input ts
           = (\<exists>pre t post. ts = pre @ t # post \<and> passedOver p input pre
                \<and> inv t \<noteq> termHits p input t)
       \<and> (passedOver p input pre \<and> \<not> inv t \<and> termHits p input t \<longrightarrow>
            extendedLoop p input ((pre @ t # post) # rest) offs
              = extendedLoop p input rest (offs @ [termOffset p input t]))
       \<and> (passedOver p input pre \<and> inv t \<and> termHits p input t \<longrightarrow>
            extendedLoop p input ((pre @ t # post) # rest) offs = offs)
       \<and> (passedOver p input pre \<and> inv t \<and> \<not> termHits p input t \<longrightarrow>
            extendedLoop p input ((pre @ t # post) # rest) offs
              = extendedLoop p input rest (offs @ [(0, 0, 0)]))
       \<and> (termSets p = before @ (pre @ t # post) # rest
            \<and> passedOver p (fst (prepareInput ext p item)) pre \<and> inv t
            \<and> termHits p (fst (prepareInput ext p item)) t \<longrightarrow>
            \<not> fst (MatchItem ext p item))
       \<and> (transformed item = Some toks \<longrightarrow> fst (prepareInput ext p item) = toks)
       \<and> (transformed item = None \<and> nth p = [] \<longrightarrow>
            fst (prepareInput ext p item)
              = [\<lparr>Token.text = Item.text item, prefixLength = 0,
                   trimLength = TrimLen ext (Item.text item)\<rparr>])
       \<and> (list_all (\<lambda>q. fst (procFun p (typ t) (Term.caseSensitive t) (forward p)
                                 (Token.text q) (Term.text t)) < 0) tpre
            \<and> procFun p (typ t) (Term.caseSensitive t) (forward p) (Token.text part)
                 (Term.text t) = (s, e)
            \<and> 0 \<le> s \<longrightarrow>
            termHits p (tpre @ part # tpost) t = (0 \<le> s + prefixLength part)
            \<and> termOffset p (tpre @ part # tpost) t
                = (word_of_int (s + prefixLength part), word_of_int (e + prefixLength part),
                   word_of_int (trimLength part)))
       \<and> (list_all (\<lambda>q. fst (procFun p (typ t) (Term.caseSensitive t) (forward p)
                                 (Token.text q) (Term.text t)) < 0) tmiss \<longrightarrow>
            \<not> termHits p tmiss t)"
proof (intro conjI)
  show "transformed item = Some toks \<longrightarrow> fst (prepareInput ext p item) = toks"
    by (simp add: prepareInput_def)
  show "transformed item = None \<and> nth p = [] \<longrightarrow>
            fst (prepareInput ext p item)
              = [\<lparr>Token.text = Item.text item, prefixLength = 0,
                   trimLength = TrimLen ext (Item.text item)\<rparr>]"
    by (simp add: prepareInput_def Let_def)
  show "list_all (\<lambda>q. fst (procFun p (typ t) (Term.caseSensitive t) (forward p)
                                 (Token.text q) (Term.text t)) < 0) tpre
            \<and> procFun p (typ t) (Term.caseSensitive t) (forward p) (Token.text part)
                 (Term.text t) = (s, e)
            \<and> 0 \<le> s \<longrightarrow>
            termHits p (tpre @ part # tpost) t = (0 \<le> s + prefixLength part)
            \<and> termOffset p (tpre @ part # tpost) t
                = (word_of_int (s + prefixLength part), word_of_int (e + prefixLength part),
                   word_of_int (trimLength part))"
    using iter_first_hit [of "procFun p (typ t)" "Term.caseSensitive t" "forward p"
        "Term.text t" tpre part s e tpost]
    by (simp add: termHits_def termOffset_def termResult_def)
  show "list_all (\<lambda>q. fst (procFun p (typ t) (Term.caseSensitive t) (forward p)
                                 (Token.text q) (Term.text t)) < 0) tmiss \<longrightarrow>
            \<not> termHits p tmiss t"
    using iter_all_miss [of "procFun p (typ t)" "Term.caseSensitive t" "forward p"
        "Term.text t" tmiss]
    by (simp add: termHits_def termResult_def)
  show sat: "fst (MatchItem ext p item)
           = (\<forall>ts \<in> set (termSets p). setSatisfied p (fst (prepareInput ext p item)) ts)"
    using assms by (simp add: MatchItem_satisfied list_all_iff)
  show "termSets p = before @ (pre @ t # post) # rest
            \<and> passedOver p (fst (prepareInput ext p item)) pre \<and> inv t
            \<and> termHits p (fst (prepareInput ext p item)) t \<longrightarrow>
            \<not> fst (MatchItem ext p item)"
    unfolding sat using inverted_hit_unsatisfied [of p "fst (prepareInput ext p item)" pre t post]
    by auto
  show "passedOver p input pre \<and> \<not> inv t \<and> termHits p input t \<longrightarrow>
            extendedLoop p input ((pre @ t # post) # rest) offs
              = extendedLoop p input rest (offs @ [termOffset p input t])"
    using extendedLoop_hit [of p input pre t post rest offs] by simp
  show "passedOver p input pre \<and> inv t \<and> termHits p input t \<longrightarrow>
            extendedLoop p input ((pre @ t # post) # rest) offs = offs"
    using extendedLoop_inverted_hit [of p input pre t post rest offs] by simp
  show "passedOver p input pre \<and> inv t \<and> \<not> termHits p input t \<longrightarrow>
            extendedLoop p input ((pre @ t # post) # rest) offs
              = extendedLoop p input rest (offs @ [(0, 0, 0)])"
    using extendedLoop_inverted_miss [of p input pre t post rest offs] by simp
qed (simp_all only: MatchItem_extended [OF assms] extendedMatch_loop setSatisfied_shape)



theorem extendedMatch_semantics_witness:
  "extended (patternOf True CaseSmart ''!foo'')
   \<and> \<not> fst (MatchItem specExt (patternOf True CaseSmart ''!foo'') (mkItem ''foobar'' 0))
   \<and> fst (extendedMatch specExt (patternOf True CaseSmart ''!foo'') (mkItem ''foobar'' 0)) = []
   \<and> fst (MatchItem specExt (patternOf True CaseSmart ''!foo'') (mkItem ''bar'' 1))
   \<and> fst (extendedMatch specExt (patternOf True CaseSmart ''!foo'') (mkItem ''bar'' 1))
       = [(0, 0, 0)]
   \<and> extended (patternOf True CaseSmart ''foo'')
   \<and> fst (MatchItem specExt (patternOf True CaseSmart ''foo'') (mkItem ''foobar'' 0))
   \<and> fst (extendedMatch specExt (patternOf True CaseSmart ''foo'') (mkItem ''foobar'' 0))
       = [(0, 3, 6)]
   \<and> fst (extendedMatch specExt (patternOf True CaseSmart ''foo'') twoFields) = [(4, 7, 3)]"
proof -
  let ?p = "patternOf True CaseSmart ''!foo''"
  let ?q = "patternOf True CaseSmart ''foo''"
  let ?t = "\<lparr>typ = termFuzzy, inv = True, text = ''foo'', caseSensitive = False,
             origText = ''!foo''\<rparr>"
  let ?u = "\<lparr>typ = termFuzzy, inv = False, text = ''foo'', caseSensitive = False,
             origText = ''foo''\<rparr>"
  let ?foobar = "fst (prepareInput specExt ?p (mkItem ''foobar'' 0))"
  let ?bar = "fst (prepareInput specExt ?p (mkItem ''bar'' 1))"
  let ?foobar' = "fst (prepareInput specExt ?q (mkItem ''foobar'' 0))"
  have ep: "extended ?p" and eq: "extended ?q"
    by code_simp+
  have tp: "termSets ?p = [] @ ([] @ ?t # []) # []"
    and tp': "termSets ?p = ([] @ ?t # []) # []" and tq: "termSets ?q = ([] @ ?u # []) # []"
    by code_simp+
  have po: "passedOver ?p ?foobar []" "passedOver ?p ?bar []" "passedOver ?q ?foobar' []"
    by (simp_all add: passedOver_def)
  have hit: "inv ?t" "termHits ?p ?foobar ?t" "\<not> termHits ?p ?bar ?t" "\<not> inv ?u"
    "termHits ?q ?foobar' ?u"
    by code_simp+
  have off: "termOffset ?q ?foobar' ?u = (0, 3, 6)"
    by code_simp
  note a = extendedMatch_semantics [OF ep, of specExt "mkItem ''foobar'' 0" ?foobar "[?t]" "[]" ?t
      "[]" "[]" "[]" "[]"]
  note b = extendedMatch_semantics [OF ep, of specExt "mkItem ''bar'' 1" ?bar "[?t]" "[]" ?t
      "[]" "[]" "[]" "[]"]
  note c = extendedMatch_semantics [OF eq, of specExt "mkItem ''foobar'' 0" ?foobar' "[?u]" "[]" ?u
      "[]" "[]" "[]" "[]"]
  note rest2 = conjunct2 [THEN conjunct2]
  note rest4 = rest2 [THEN rest2]
  have a1: "\<not> fst (MatchItem specExt ?p (mkItem ''foobar'' 0))"
    by (rule a [THEN rest4, THEN rest2, THEN conjunct2, THEN conjunct1, THEN mp])
       (intro conjI tp po(1) hit(1) hit(2))
  have a2: "fst (extendedMatch specExt ?p (mkItem ''foobar'' 0)) = []"
    using a [THEN rest2, THEN conjunct1] a [THEN rest4, THEN conjunct2, THEN conjunct1]
      po(1) hit(1,2)
    by (simp only: tp')
  have b2: "fst (extendedMatch specExt ?p (mkItem ''bar'' 1)) = [(0, 0, 0)]"
    using b [THEN rest2, THEN conjunct1] b [THEN rest4, THEN rest2, THEN conjunct1]
      po(2) hit(1,3)
    by (simp only: tp' extendedLoop.simps(1) append_Nil simp_thms)
  have b1: "fst (MatchItem specExt ?p (mkItem ''bar'' 1))"
    unfolding b [THEN conjunct2, THEN conjunct1] b2 tp' by simp
  have c2: "fst (extendedMatch specExt ?q (mkItem ''foobar'' 0)) = [(0, 3, 6)]"
    using c [THEN rest2, THEN conjunct1] c [THEN rest4, THEN conjunct1]
      po(3) hit(4,5)
    by (simp only: tq off extendedLoop.simps(1) append_Nil simp_thms)
  have c1: "fst (MatchItem specExt ?q (mkItem ''foobar'' 0))"
    unfolding c [THEN conjunct2, THEN conjunct1] c2 tq by simp
  let ?tokA = "\<lparr>Token.text = ''bar '', prefixLength = 0, trimLength = 3\<rparr>"
  let ?tokB = "\<lparr>Token.text = ''foo'', prefixLength = 4, trimLength = 3\<rparr>"
  let ?toks = "[?tokA] @ ?tokB # []"
  note d = extendedMatch_semantics [OF eq, of specExt twoFields ?toks "[?u]" "[]" ?u
      "[]" "[]" "[]" "[]" ?toks "[?tokA]" ?tokB 0 3 "[]" "[]"]
  note rest8 = rest4 [THEN rest4]
  have tf: "transformed twoFields = Some ?toks"
    by (simp add: twoFields_def)
  have inp: "fst (prepareInput specExt ?q twoFields) = ?toks"
    by (rule d [THEN rest8, THEN conjunct1, THEN mp, OF tf])
  have m1: "list_all (\<lambda>q. fst (procFun ?q (typ ?u) (Term.caseSensitive ?u) (forward ?q)
      (Token.text q) (Term.text ?u)) < 0) [?tokA]"
    by code_simp
  have m2: "procFun ?q (typ ?u) (Term.caseSensitive ?u) (forward ?q) (Token.text ?tokB)
      (Term.text ?u) = (0, 3)"
    by code_simp
  have m3: "(0::int) \<le> 0"
    by simp
  note d11 = d [THEN rest8, THEN rest2, THEN conjunct1, THEN mp,
      OF conjI [OF m1 conjI [OF m2 m3]]]
  have dh: "termHits ?q ?toks ?u"
    using d11 [THEN conjunct1] by simp
  have doff: "termOffset ?q ?toks ?u = (4, 7, 3)"
    using d11 [THEN conjunct2] by simp
  have dpo: "passedOver ?q ?toks []"
    by (simp add: passedOver_def)
  have d2: "fst (extendedMatch specExt ?q twoFields) = [(4, 7, 3)]"
    using d [THEN rest2, THEN conjunct1]
      d [THEN rest4, THEN conjunct1, THEN mp, OF conjI [OF dpo conjI [OF hit(4) dh]]]
    by (simp only: inp tq doff extendedLoop.simps(1) append_Nil)
  from ep eq a1 a2 b1 b2 c1 c2 d2 show ?thesis
    by (intro conjI)
qed

end
